theory Spec2Isabelle
  imports Main "HOL-Library.Word" "HOL-Library.Sublist"
begin

unbundle bit_operations_syntax

section \<open>CLKernel: sandbox engine, module registry, actor scheduler\<close>

text \<open>
  A shallow embedding of three C translation units of CLKernel:
  \<^verbatim>\<open>kernel/core/sandboxing.c\<close>, \<^verbatim>\<open>kernel/core/modules.c\<close> and
  \<^verbatim>\<open>kernel/core/scheduler.c\<close>. Each C global becomes a record that is passed in
  and returned; a C function that returns a value and mutates the global returns a
  pair (value, new state). Fixed-width C integers are words; a fixed-size C array is a
  function from the index; a pointer into a static pool is the index of the slot and a
  nullable pointer is an option. Calls of \<^verbatim>\<open>kprintf\<close> have no effect on the state
  and are left out.
\<close>

type_synonym u8 = "8 word"
type_synonym u16 = "16 word"
type_synonym u32 = "32 word"
type_synonym u64 = "64 word"

subsection \<open>sandboxing.h: constants\<close>

definition MAX_SANDBOXES :: nat where "MAX_SANDBOXES = 32"
definition MAX_RESOURCE_LIMITS :: nat where "MAX_RESOURCE_LIMITS = 16"
definition MAX_VIOLATION_LOG :: nat where "MAX_VIOLATION_LOG = 100"

definition SANDBOX_LEVEL_UNRESTRICTED :: u8 where "SANDBOX_LEVEL_UNRESTRICTED = 0"
definition SANDBOX_LEVEL_TRUSTED :: u8 where "SANDBOX_LEVEL_TRUSTED = 1"
definition SANDBOX_LEVEL_USER :: u8 where "SANDBOX_LEVEL_USER = 2"
definition SANDBOX_LEVEL_UNTRUSTED :: u8 where "SANDBOX_LEVEL_UNTRUSTED = 3"
definition SANDBOX_LEVEL_QUARANTINE :: u8 where "SANDBOX_LEVEL_QUARANTINE = 4"

definition CAP_MEMORY_ALLOC :: u32 where "CAP_MEMORY_ALLOC = 0x00000001"
definition CAP_MEMORY_FREE :: u32 where "CAP_MEMORY_FREE = 0x00000002"
definition CAP_SCHEDULER_CREATE :: u32 where "CAP_SCHEDULER_CREATE = 0x00000020"
definition CAP_SCHEDULER_SIGNAL :: u32 where "CAP_SCHEDULER_SIGNAL = 0x00000100"
definition CAP_MODULE_QUERY :: u32 where "CAP_MODULE_QUERY = 0x00000800"
definition CAP_VGA_WRITE :: u32 where "CAP_VGA_WRITE = 0x00001000"
definition CAP_VGA_CLEAR :: u32 where "CAP_VGA_CLEAR = 0x00002000"
definition CAP_TIMER_ACCESS :: u32 where "CAP_TIMER_ACCESS = 0x00020000"
definition CAP_FILESYSTEM_WRITE :: u32 where "CAP_FILESYSTEM_WRITE = 0x00080000"
definition CAP_AI_QUERY :: u32 where "CAP_AI_QUERY = 0x02000000"
definition CAP_DEBUG_ACCESS :: u32 where "CAP_DEBUG_ACCESS = 0x08000000"

definition RESOURCE_MEMORY :: u8 where "RESOURCE_MEMORY = 0"
definition RESOURCE_CHILD_ACTORS :: u8 where "RESOURCE_CHILD_ACTORS = 4"
definition RESOURCE_HEAP_ALLOCS :: u8 where "RESOURCE_HEAP_ALLOCS = 5"
definition RESOURCE_MODULE_CALLS :: u8 where "RESOURCE_MODULE_CALLS = 6"
definition RESOURCE_AI_QUERIES :: u8 where "RESOURCE_AI_QUERIES = 7"

definition VIOLATION_CAPABILITY :: u8 where "VIOLATION_CAPABILITY = 0"
definition VIOLATION_RESOURCE :: u8 where "VIOLATION_RESOURCE = 1"
definition VIOLATION_MEMORY :: u8 where "VIOLATION_MEMORY = 2"
definition VIOLATION_EXECUTION :: u8 where "VIOLATION_EXECUTION = 3"
definition VIOLATION_POLICY :: u8 where "VIOLATION_POLICY = 4"

subsection \<open>sandboxing.h: data structures\<close>

record resource_limit =
  resource_type :: u8
  limit :: u32
  current_usage :: u32
  peak_usage :: u32
  enforce :: bool

text \<open>
  \<^verbatim>\<open>description\<close> is the 128-byte buffer of the log entry, as a list of its bytes.
\<close>

record security_violation =
  violation_id :: u32
  timestamp :: u64
  v_module_id :: u32
  violation_type :: u8
  attempted_capability :: u32
  attempted_resource :: u32
  description :: "char list"
  action_taken :: bool

text \<open>
  \<^verbatim>\<open>limits\<close> holds the live prefix \<^verbatim>\<open>limits[0 .. limit_count)\<close> of the C array;
  \<^verbatim>\<open>limit_count\<close> is its length (the code never reads an entry at or beyond
  \<^verbatim>\<open>limit_count\<close>, and never lets the count pass \<^verbatim>\<open>MAX_RESOURCE_LIMITS\<close>).
  The memory and stack pointers and the VM context are only ever written
  (\<^verbatim>\<open>NULL\<close>, 0) and are left out.
\<close>

record sandbox_context =
  sandbox_id :: u32
  sb_module_id :: u32
  security_level :: u8
  active :: bool
  capabilities :: u32
  denied_capabilities :: u32
  limits :: "resource_limit list"
  sb_function_calls :: u64
  memory_allocations :: u64
  capability_checks :: u64
  sb_violations :: u64
  last_violation_id :: u32
  vm_enabled :: bool
  vm_instruction_count :: u32
  vm_instruction_limit :: u32

text \<open>
  The file-level globals \<^verbatim>\<open>sandbox_system\<close> and \<^verbatim>\<open>sandboxing_initialized\<close>.
\<close>

record sandboxing_system_state =
  sandboxes :: "nat \<Rightarrow> sandbox_context"
  sandbox_count :: u32
  next_sandbox_id :: u32
  default_capabilities :: "u8 \<Rightarrow> u32"
  strict_enforcement :: bool
  logging_enabled :: bool
  violations :: "nat \<Rightarrow> security_violation"
  violation_count :: u32
  violation_index :: u32
  next_violation_id :: u32
  total_capability_checks :: u64
  total_violations :: u64
  total_enforcements :: u64
  quarantined_modules :: u32
  sandboxing_initialized :: bool

subsection \<open>sandboxing.c: lookup and logging\<close>

text \<open>
  \<^verbatim>\<open>sandboxing_find_sandbox_by_module\<close>: the first active slot for the module id, in
  index order; the result is the slot index.
\<close>

definition sandboxing_find_sandbox_by_module :: "sandboxing_system_state \<Rightarrow> u32 \<Rightarrow> nat option" where
  "sandboxing_find_sandbox_by_module s module_id =
     (if \<not> sandboxing_initialized s then None
      else List.find (\<lambda>i. active (sandboxes s i) \<and> sb_module_id (sandboxes s i) = module_id)
             [0 ..< MAX_SANDBOXES])"

text \<open>
  The description copy of \<^verbatim>\<open>sandboxing_log_violation\<close>: at most 127 bytes are copied
  over the old buffer, no terminator is written after them, and byte 127 is set to NUL;
  a NULL description only sets byte 0 to NUL.
\<close>

definition copy_description :: "char list \<Rightarrow> string option \<Rightarrow> char list" where
  "copy_description old d =
     (case d of
        None \<Rightarrow> old[0 := CHR 0x00]
      | Some str \<Rightarrow> (let k = min 127 (length str) in (take k str @ drop k old)[127 := CHR 0x00]))"

definition sandboxing_log_violation ::
  "sandboxing_system_state \<Rightarrow> u32 \<Rightarrow> u8 \<Rightarrow> u32 \<Rightarrow> string option \<Rightarrow> sandboxing_system_state" where
  "sandboxing_log_violation s module_id vtype capability d =
     (if \<not> logging_enabled s then s
      else
        let idx = unat (violation_index s);
            old = violations s idx;
            v = old\<lparr>violation_id := next_violation_id s,
                    timestamp := 0,
                    v_module_id := module_id,
                    violation_type := vtype,
                    attempted_capability := capability,
                    attempted_resource := 0,
                    action_taken := False,
                    description := copy_description (description old) d\<rparr>
        in s\<lparr>violations := (violations s)(idx := v),
              next_violation_id := next_violation_id s + 1,
              violation_index := (violation_index s + 1) mod 100,
              violation_count :=
                (if violation_count s < 100 then violation_count s + 1 else violation_count s),
              total_violations := total_violations s + 1\<rparr>)"

subsection \<open>sandboxing.c: resource limits\<close>

text \<open>The loop that looks a resource type up in the live limits: the first match.\<close>

fun find_limit :: "resource_limit list \<Rightarrow> u8 \<Rightarrow> nat option" where
  "find_limit [] rt = None"
| "find_limit (l # ls) rt =
     (if resource_type l = rt then Some 0 else map_option Suc (find_limit ls rt))"

definition sandboxing_set_resource_limit ::
  "sandboxing_system_state \<Rightarrow> u32 \<Rightarrow> u8 \<Rightarrow> u32 \<Rightarrow> int \<times> sandboxing_system_state" where
  "sandboxing_set_resource_limit s module_id rt lim =
     (if \<not> sandboxing_initialized s then (-1, s)
      else case sandboxing_find_sandbox_by_module s module_id of
        None \<Rightarrow> (-2, s)
      | Some i \<Rightarrow>
          if unat rt \<ge> MAX_RESOURCE_LIMITS then (-3, s)
          else
            let sb = sandboxes s i in
            (case find_limit (limits sb) rt of
               Some j \<Rightarrow>
                 (0, s\<lparr>sandboxes := (sandboxes s)
                        (i := sb\<lparr>limits := (limits sb)
                               [j := (limits sb ! j)\<lparr>limit := lim, enforce := True\<rparr>]\<rparr>)\<rparr>)
             | None \<Rightarrow>
                 if length (limits sb) < MAX_RESOURCE_LIMITS then
                   (0, s\<lparr>sandboxes := (sandboxes s)
                          (i := sb\<lparr>limits := limits sb @
                                 [\<lparr>resource_type = rt, limit = lim, current_usage = 0,
                                   peak_usage = 0, enforce = True\<rparr>]\<rparr>)\<rparr>)
                 else (-4, s)))"

text \<open>
  \<^verbatim>\<open>sandboxing_update_resource_usage\<close>; \<^verbatim>\<open>delta\<close> is an \<^verbatim>\<open>int32_t\<close>, added to the
  unsigned usage with wrap-around unless it would take the usage below zero.
\<close>

definition sandboxing_update_resource_usage ::
  "sandboxing_system_state \<Rightarrow> u32 \<Rightarrow> u8 \<Rightarrow> u32 \<Rightarrow> int \<times> sandboxing_system_state" where
  "sandboxing_update_resource_usage s module_id rt delta =
     (if \<not> sandboxing_initialized s then (0, s)
      else case sandboxing_find_sandbox_by_module s module_id of
        None \<Rightarrow> (0, s)
      | Some i \<Rightarrow>
          let sb = sandboxes s i in
          (case find_limit (limits sb) rt of
             None \<Rightarrow> (-1, s)
           | Some j \<Rightarrow>
               let l = limits sb ! j;
                   u = (if sint delta < 0 \<and> - delta > current_usage l then 0
                        else current_usage l + delta);
                   l' = l\<lparr>current_usage := u,
                          peak_usage := (if u > peak_usage l then u else peak_usage l)\<rparr>
               in (0, s\<lparr>sandboxes := (sandboxes s)(i := sb\<lparr>limits := (limits sb)[j := l']\<rparr>)\<rparr>)))"

definition sandboxing_check_resource_limit ::
  "sandboxing_system_state \<Rightarrow> u32 \<Rightarrow> u8 \<Rightarrow> u32 \<Rightarrow> bool \<times> sandboxing_system_state" where
  "sandboxing_check_resource_limit s module_id rt requested =
     (if \<not> sandboxing_initialized s then (True, s)
      else case sandboxing_find_sandbox_by_module s module_id of
        None \<Rightarrow> (True, s)
      | Some i \<Rightarrow>
          (case find_limit (limits (sandboxes s i)) rt of
             None \<Rightarrow> (True, s)
           | Some j \<Rightarrow>
               let l = limits (sandboxes s i) ! j in
               if \<not> enforce l then (True, s)
               else if current_usage l + requested > limit l then
                 (False, sandboxing_log_violation s module_id VIOLATION_RESOURCE (ucast rt)
                           (Some ''Resource limit exceeded''))
               else (True, s)))"

subsection \<open>sandboxing.c: capabilities\<close>

definition sandboxing_has_capability ::
  "sandboxing_system_state \<Rightarrow> u32 \<Rightarrow> u32 \<Rightarrow> bool \<times> sandboxing_system_state" where
  "sandboxing_has_capability s module_id capability =
     (if \<not> sandboxing_initialized s then (True, s)
      else case sandboxing_find_sandbox_by_module s module_id of
        None \<Rightarrow> (True, s)
      | Some i \<Rightarrow>
          let sb = sandboxes s i;
              s1 = s\<lparr>sandboxes := (sandboxes s)
                        (i := sb\<lparr>capability_checks := capability_checks sb + 1\<rparr>),
                     total_capability_checks := total_capability_checks s + 1\<rparr>
          in if denied_capabilities sb AND capability \<noteq> 0 then
               (False, sandboxing_log_violation s1 module_id VIOLATION_CAPABILITY capability
                         (Some ''Capability explicitly denied''))
             else if capabilities sb AND capability \<noteq> 0 then (True, s1)
             else (False, sandboxing_log_violation s1 module_id VIOLATION_CAPABILITY capability
                            (Some ''Capability not granted'')))"

definition sandboxing_grant_capability ::
  "sandboxing_system_state \<Rightarrow> u32 \<Rightarrow> u32 \<Rightarrow> int \<times> sandboxing_system_state" where
  "sandboxing_grant_capability s module_id capability =
     (if \<not> sandboxing_initialized s then (-1, s)
      else case sandboxing_find_sandbox_by_module s module_id of
        None \<Rightarrow> (-2, s)
      | Some i \<Rightarrow>
          let sb = sandboxes s i in
          (0, s\<lparr>sandboxes := (sandboxes s)
                 (i := sb\<lparr>denied_capabilities := denied_capabilities sb AND NOT capability,
                          capabilities := capabilities sb OR capability\<rparr>)\<rparr>))"

definition sandboxing_revoke_capability ::
  "sandboxing_system_state \<Rightarrow> u32 \<Rightarrow> u32 \<Rightarrow> int \<times> sandboxing_system_state" where
  "sandboxing_revoke_capability s module_id capability =
     (if \<not> sandboxing_initialized s then (-1, s)
      else case sandboxing_find_sandbox_by_module s module_id of
        None \<Rightarrow> (-2, s)
      | Some i \<Rightarrow>
          let sb = sandboxes s i in
          (0, s\<lparr>sandboxes := (sandboxes s)
                 (i := sb\<lparr>capabilities := capabilities sb AND NOT capability,
                          denied_capabilities := denied_capabilities sb OR capability\<rparr>)\<rparr>))"

definition sandboxing_set_capabilities ::
  "sandboxing_system_state \<Rightarrow> u32 \<Rightarrow> u32 \<Rightarrow> int \<times> sandboxing_system_state" where
  "sandboxing_set_capabilities s module_id caps =
     (if \<not> sandboxing_initialized s then (-1, s)
      else case sandboxing_find_sandbox_by_module s module_id of
        None \<Rightarrow> (-2, s)
      | Some i \<Rightarrow>
          (0, s\<lparr>sandboxes := (sandboxes s)
                 (i := (sandboxes s i)\<lparr>capabilities := caps, denied_capabilities := 0\<rparr>)\<rparr>))"

subsection \<open>sandboxing.c: enforcement entry points\<close>

text \<open>
  \<^verbatim>\<open>sandboxing_check_memory_access\<close>; the address is the 32-bit pointer value, NULL
  is 0. Both arms of the conditional that picks the required capability are
  \<^verbatim>\<open>CAP_MEMORY_ALLOC\<close>.
\<close>

definition sandboxing_check_memory_access ::
  "sandboxing_system_state \<Rightarrow> u32 \<Rightarrow> u32 \<Rightarrow> u32 \<Rightarrow> bool \<Rightarrow> bool \<times> sandboxing_system_state" where
  "sandboxing_check_memory_access s module_id address sz write =
     (if \<not> sandboxing_initialized s then (True, s)
      else case sandboxing_find_sandbox_by_module s module_id of
        None \<Rightarrow> (True, s)
      | Some i \<Rightarrow>
          let required_cap = (if write then CAP_MEMORY_ALLOC else CAP_MEMORY_ALLOC);
              (ok, s1) = sandboxing_has_capability s module_id required_cap
          in if \<not> ok then (False, s1)
             else if address = 0 \<or> sz = 0 then
               (False, sandboxing_log_violation s1 module_id VIOLATION_MEMORY 0
                         (Some ''Invalid memory access parameters''))
             else (True, s1))"

definition restricted_funcs :: "string list" where
  "restricted_funcs = [''system'', ''exec'', ''fork'', ''kill'', ''reboot'', ''shutdown'']"

text \<open>
  The inner comparison loop of \<^verbatim>\<open>sandboxing_check_function_call\<close>: it walks both
  strings until either ends and reports a match unless two bytes differ on the way.
\<close>

fun name_match :: "string \<Rightarrow> string \<Rightarrow> bool" where
  "name_match [] r = True"
| "name_match (c # cs) [] = True"
| "name_match (c # cs) (d # ds) = (if c \<noteq> d then False else name_match cs ds)"

definition sandboxing_check_function_call ::
  "sandboxing_system_state \<Rightarrow> u32 \<Rightarrow> string option \<Rightarrow> bool \<times> sandboxing_system_state" where
  "sandboxing_check_function_call s module_id function_name =
     (if \<not> sandboxing_initialized s then (True, s)
      else case sandboxing_find_sandbox_by_module s module_id of
        None \<Rightarrow> (True, s)
      | Some i \<Rightarrow>
          let s1 = s\<lparr>sandboxes := (sandboxes s)
                        (i := (sandboxes s i)\<lparr>sb_function_calls :=
                                 sb_function_calls (sandboxes s i) + 1\<rparr>)\<rparr>;
              s2 = snd (sandboxing_update_resource_usage s1 module_id RESOURCE_MODULE_CALLS 1);
              (ok, s3) = sandboxing_check_resource_limit s2 module_id RESOURCE_MODULE_CALLS 0
          in if \<not> ok then (False, s3)
             else (case function_name of
               None \<Rightarrow> (True, s3)
             | Some fn \<Rightarrow>
                 if list_ex (name_match fn) restricted_funcs then
                   (False, sandboxing_log_violation s3 module_id VIOLATION_EXECUTION 0
                             (Some ''Restricted function call''))
                 else (True, s3)))"

subsection \<open>sandboxing.c: quarantine and violation handling\<close>

definition sandboxing_quarantine_module ::
  "sandboxing_system_state \<Rightarrow> u32 \<Rightarrow> int \<times> sandboxing_system_state" where
  "sandboxing_quarantine_module s module_id =
     (if \<not> sandboxing_initialized s then (-1, s)
      else case sandboxing_find_sandbox_by_module s module_id of
        None \<Rightarrow> (-2, s)
      | Some i \<Rightarrow>
          let s1 = s\<lparr>sandboxes := (sandboxes s)
                        (i := (sandboxes s i)
                           \<lparr>security_level := SANDBOX_LEVEL_QUARANTINE,
                            capabilities := default_capabilities s SANDBOX_LEVEL_QUARANTINE\<rparr>)\<rparr>;
              s2 = snd (sandboxing_set_resource_limit s1 module_id RESOURCE_MEMORY (256 * 1024));
              s3 = snd (sandboxing_set_resource_limit s2 module_id RESOURCE_CHILD_ACTORS 0);
              s4 = snd (sandboxing_set_resource_limit s3 module_id RESOURCE_HEAP_ALLOCS 1);
              s5 = snd (sandboxing_set_resource_limit s4 module_id RESOURCE_MODULE_CALLS 10)
          in (0, s5\<lparr>quarantined_modules := quarantined_modules s5 + 1\<rparr>))"

definition sandboxing_handle_violation ::
  "sandboxing_system_state \<Rightarrow> u32 \<Rightarrow> u8 \<Rightarrow> string option \<Rightarrow> int \<times> sandboxing_system_state" where
  "sandboxing_handle_violation s module_id vtype d =
     (if \<not> sandboxing_initialized s then (-1, s)
      else
        let sandbox = sandboxing_find_sandbox_by_module s module_id;
            s1 = (case sandbox of
                    None \<Rightarrow> s
                  | Some i \<Rightarrow> s\<lparr>sandboxes := (sandboxes s)
                       (i := (sandboxes s i)\<lparr>sb_violations := sb_violations (sandboxes s i) + 1\<rparr>)\<rparr>);
            s2 = sandboxing_log_violation s1 module_id vtype 0 d
        in if strict_enforcement s2
              \<and> (vtype = VIOLATION_CAPABILITY \<or> vtype = VIOLATION_EXECUTION)
              \<and> (case sandbox of None \<Rightarrow> False | Some i \<Rightarrow> sb_violations (sandboxes s2 i) > 5)
           then (0, snd (sandboxing_quarantine_module s2 module_id))
           else (0, s2))"

definition sandboxing_enable_strict_mode ::
  "sandboxing_system_state \<Rightarrow> bool \<Rightarrow> int \<times> sandboxing_system_state" where
  "sandboxing_enable_strict_mode s enabled =
     (if \<not> sandboxing_initialized s then (-1, s) else (0, s\<lparr>strict_enforcement := enabled\<rparr>))"

subsection \<open>sandboxing.c: initialisation and sandbox creation\<close>

definition sandboxing_init_default_policies :: "sandboxing_system_state \<Rightarrow> sandboxing_system_state" where
  "sandboxing_init_default_policies s =
     s\<lparr>default_capabilities := (default_capabilities s)
         (SANDBOX_LEVEL_UNRESTRICTED := 0xFFFFFFFF,
          SANDBOX_LEVEL_TRUSTED :=
            CAP_MEMORY_ALLOC OR CAP_MEMORY_FREE OR CAP_SCHEDULER_CREATE OR CAP_SCHEDULER_SIGNAL OR
            CAP_MODULE_QUERY OR CAP_VGA_WRITE OR CAP_VGA_CLEAR OR CAP_TIMER_ACCESS OR
            CAP_AI_QUERY OR CAP_DEBUG_ACCESS,
          SANDBOX_LEVEL_USER :=
            CAP_MEMORY_ALLOC OR CAP_MEMORY_FREE OR CAP_SCHEDULER_SIGNAL OR
            CAP_MODULE_QUERY OR CAP_VGA_WRITE OR CAP_TIMER_ACCESS OR CAP_AI_QUERY,
          SANDBOX_LEVEL_UNTRUSTED := CAP_MEMORY_ALLOC OR CAP_MEMORY_FREE OR CAP_MODULE_QUERY,
          SANDBOX_LEVEL_QUARANTINE := CAP_MODULE_QUERY)\<rparr>"

definition sandboxing_init :: "sandboxing_system_state \<Rightarrow> int \<times> sandboxing_system_state" where
  "sandboxing_init s =
     (0, (sandboxing_init_default_policies
            (s\<lparr>sandbox_count := 0,
               next_sandbox_id := 1,
               strict_enforcement := True,
               logging_enabled := True,
               sandboxes := (\<lambda>i. if i < MAX_SANDBOXES then (sandboxes s i)\<lparr>active := False\<rparr>
                                  else sandboxes s i),
               violation_count := 0,
               violation_index := 0,
               next_violation_id := 1,
               total_capability_checks := 0,
               total_violations := 0,
               total_enforcements := 0,
               quarantined_modules := 0\<rparr>))
          \<lparr>sandboxing_initialized := True\<rparr>)"

text \<open>The per-level default limits set by the \<^verbatim>\<open>switch\<close> of \<^verbatim>\<open>sandboxing_create_sandbox\<close>.\<close>

definition level_limits :: "u8 \<Rightarrow> (u8 \<times> u32) list" where
  "level_limits lvl =
     (if lvl = SANDBOX_LEVEL_TRUSTED then
        [(RESOURCE_MEMORY, 4 * 1024 * 1024), (RESOURCE_CHILD_ACTORS, 10), (RESOURCE_HEAP_ALLOCS, 1000)]
      else if lvl = SANDBOX_LEVEL_USER then
        [(RESOURCE_MEMORY, 2 * 1024 * 1024), (RESOURCE_CHILD_ACTORS, 5), (RESOURCE_HEAP_ALLOCS, 500),
         (RESOURCE_MODULE_CALLS, 1000)]
      else if lvl = SANDBOX_LEVEL_UNTRUSTED then
        [(RESOURCE_MEMORY, 1 * 1024 * 1024), (RESOURCE_CHILD_ACTORS, 2), (RESOURCE_HEAP_ALLOCS, 100),
         (RESOURCE_MODULE_CALLS, 500), (RESOURCE_AI_QUERIES, 10)]
      else if lvl = SANDBOX_LEVEL_QUARANTINE then
        [(RESOURCE_MEMORY, 512 * 1024), (RESOURCE_CHILD_ACTORS, 0), (RESOURCE_HEAP_ALLOCS, 10),
         (RESOURCE_MODULE_CALLS, 100)]
      else [])"

fun set_limits :: "sandboxing_system_state \<Rightarrow> u32 \<Rightarrow> (u8 \<times> u32) list \<Rightarrow> sandboxing_system_state" where
  "set_limits s module_id [] = s"
| "set_limits s module_id ((rt, lim) # rest) =
     set_limits (snd (sandboxing_set_resource_limit s module_id rt lim)) module_id rest"

definition sandboxing_create_sandbox ::
  "sandboxing_system_state \<Rightarrow> u32 \<Rightarrow> u8 \<Rightarrow> int \<times> sandboxing_system_state" where
  "sandboxing_create_sandbox s module_id lvl =
     (if \<not> sandboxing_initialized s then (-1, s)
      else if unat (sandbox_count s) \<ge> MAX_SANDBOXES then (-2, s)
      else if lvl > SANDBOX_LEVEL_QUARANTINE then (-3, s)
      else if sandboxing_find_sandbox_by_module s module_id \<noteq> None then (-4, s)
      else case List.find (\<lambda>i. \<not> active (sandboxes s i)) [0 ..< MAX_SANDBOXES] of
        None \<Rightarrow> (-5, s)
      | Some i \<Rightarrow>
          let s1 = s\<lparr>sandboxes := (sandboxes s)
                        (i := (sandboxes s i)
                           \<lparr>sandbox_id := next_sandbox_id s,
                            sb_module_id := module_id,
                            security_level := lvl,
                            active := True,
                            capabilities := default_capabilities s lvl,
                            denied_capabilities := 0,
                            limits := []\<rparr>),
                     next_sandbox_id := next_sandbox_id s + 1\<rparr>;
              s2 = set_limits s1 module_id (level_limits lvl);
              s3 = s2\<lparr>sandboxes := (sandboxes s2)
                         (i := (sandboxes s2 i)
                            \<lparr>sb_function_calls := 0,
                             memory_allocations := 0,
                             capability_checks := 0,
                             sb_violations := 0,
                             last_violation_id := 0,
                             vm_enabled := False,
                             vm_instruction_count := 0,
                             vm_instruction_limit := 1000000\<rparr>),
                       sandbox_count := sandbox_count s2 + 1\<rparr>
          in (sint (sandbox_id (sandboxes s3 i)), s3))"

text \<open>
  The state before \<^verbatim>\<open>sandboxing_init\<close>: C zero-initialises the static globals.
\<close>

definition zero_violation :: security_violation where
  "zero_violation = \<lparr>violation_id = 0, timestamp = 0, v_module_id = 0, violation_type = 0,
     attempted_capability = 0, attempted_resource = 0,
     description = replicate 128 (CHR 0x00), action_taken = False\<rparr>"

definition zero_sandbox :: sandbox_context where
  "zero_sandbox = \<lparr>sandbox_id = 0, sb_module_id = 0, security_level = 0, active = False,
     capabilities = 0, denied_capabilities = 0, limits = [],
     sb_function_calls = 0, memory_allocations = 0, capability_checks = 0, sb_violations = 0,
     last_violation_id = 0, vm_enabled = False, vm_instruction_count = 0,
     vm_instruction_limit = 0\<rparr>"

definition sandbox_boot :: sandboxing_system_state where
  "sandbox_boot = \<lparr>sandboxes = (\<lambda>_. zero_sandbox), sandbox_count = 0, next_sandbox_id = 0,
     default_capabilities = (\<lambda>_. 0), strict_enforcement = False, logging_enabled = False,
     violations = (\<lambda>_. zero_violation), violation_count = 0, violation_index = 0,
     next_violation_id = 0, total_capability_checks = 0, total_violations = 0,
     total_enforcements = 0, quarantined_modules = 0, sandboxing_initialized = False\<rparr>"

section \<open>scheduler.c: actors, ready queue, mailboxes\<close>

subsection \<open>scheduler.h: constants and data structures\<close>

definition MAX_ACTORS :: nat where "MAX_ACTORS = 256"
definition MAX_MESSAGES :: nat where "MAX_MESSAGES = 1024"
definition ACTOR_STACK_SIZE :: u32 where "ACTOR_STACK_SIZE = 8192"
definition SCHEDULER_TIMESLICE_MS :: u32 where "SCHEDULER_TIMESLICE_MS = 10"

definition ACTOR_STATE_CREATED :: u8 where "ACTOR_STATE_CREATED = 0"
definition ACTOR_STATE_READY :: u8 where "ACTOR_STATE_READY = 1"
definition ACTOR_STATE_RUNNING :: u8 where "ACTOR_STATE_RUNNING = 2"
definition ACTOR_STATE_BLOCKED :: u8 where "ACTOR_STATE_BLOCKED = 3"
definition ACTOR_STATE_FINISHED :: u8 where "ACTOR_STATE_FINISHED = 4"
definition ACTOR_STATE_ERROR :: u8 where "ACTOR_STATE_ERROR = 5"
definition ACTOR_STATE_SUSPENDED :: u8 where "ACTOR_STATE_SUSPENDED = 6"

definition ACTOR_PRIORITY_CRITICAL :: u8 where "ACTOR_PRIORITY_CRITICAL = 0"
definition ACTOR_PRIORITY_HIGH :: u8 where "ACTOR_PRIORITY_HIGH = 1"
definition ACTOR_PRIORITY_NORMAL :: u8 where "ACTOR_PRIORITY_NORMAL = 2"
definition ACTOR_PRIORITY_LOW :: u8 where "ACTOR_PRIORITY_LOW = 3"
definition ACTOR_PRIORITY_IDLE :: u8 where "ACTOR_PRIORITY_IDLE = 4"

definition MSG_TYPE_ASYNC :: u8 where "MSG_TYPE_ASYNC = 0"
definition MSG_TYPE_SYNC_REQUEST :: u8 where "MSG_TYPE_SYNC_REQUEST = 1"
definition MSG_TYPE_SYNC_REPLY :: u8 where "MSG_TYPE_SYNC_REPLY = 2"
definition MSG_TYPE_SYSTEM :: u8 where "MSG_TYPE_SYSTEM = 4"

text \<open>
  A message lives in a slot of the static \<^verbatim>\<open>message_pool\<close>; \<^verbatim>\<open>pool_slot\<close> is that
  slot's index, i.e. the message's address. The \<^verbatim>\<open>next\<close> pointer is represented by
  the message's position in the mailbox list below.
\<close>

record message =
  sender_id :: u32
  recipient_id :: u32
  message_id :: u32
  msg_type :: u8
  msg_priority :: u8
  msg_flags :: u16
  payload_size :: u32
  payload :: "u8 list option"
  msg_timestamp :: u64
  deadline :: u64
  reply_to :: u32
  requires_reply :: bool
  pool_slot :: nat

text \<open>
  An actor lives in slot \<^verbatim>\<open>actor_id\<close> of the static \<^verbatim>\<open>actor_pool\<close>. The ready queue
  is kept as the code has it, a doubly linked list threaded through \<^verbatim>\<open>next\<close> and
  \<^verbatim>\<open>prev\<close> (pool indices), because the code unlinks actors that are not in the
  queue. The mailbox, a NULL-terminated singly linked list that
  \<^verbatim>\<open>actor_add_message\<close> walks to its tail, is the list of its messages from head to
  tail. The list stands for the linked cells as long as no pool slot is linked into two
  places at once and no linked slot is marked free: a slot that is freed while linked
  is handed out again by \<^verbatim>\<open>message_allocate\<close> and relinked, which the list
  cannot show. The predicates \<open>pool_wf\<close> and \<open>owned_run\<close> of the section on
  histories state this condition, and the theorems about mailboxes along histories
  assume it. \<^verbatim>\<open>queue_size\<close> stays the separate counter of the code. The saved register
  image, the current stack pointer, the memory context and the error code and message
  are written when an actor is set up and read by no function; they are left out, and
  so are the calls of \<^verbatim>\<open>kfree\<close>.
\<close>

record actor =
  actor_id :: u32
  parent_id :: u32
  a_state :: u8
  a_priority :: u8
  a_flags :: u32
  stack_base :: u32
  stack_size :: u32
  entry_point :: u32
  user_data :: u32
  message_queue :: "message list"
  queue_size :: u32
  max_queue_size :: u32
  cpu_time_used :: u64
  a_messages_sent :: u64
  a_messages_received :: u64
  creation_time :: u64
  last_scheduled :: u64
  memory_limit :: u32
  memory_used :: u32
  a_behavior_score :: u32
  a_anomaly_count :: u32
  a_ai_monitored :: bool
  a_next :: "nat option"
  a_prev :: "nat option"

record scheduler_stats =
  context_switches :: u64
  actors_created :: u64
  actors_destroyed :: u64
  messages_sent :: u64
  messages_delivered :: u64
  current_actors :: u32
  ready_actors :: u32

text \<open>
  \<^verbatim>\<open>kernel_scheduler\<close> together with the file-level statics \<^verbatim>\<open>scheduler_initialized\<close>,
  \<^verbatim>\<open>actor_pool\<close>, \<^verbatim>\<open>actor_pool_used\<close> and \<^verbatim>\<open>message_pool_used\<close>. The
  statistics and the scheduler fields that only \<^verbatim>\<open>scheduler_init\<close> writes are left
  out.
\<close>

record scheduler =
  actors :: "nat \<Rightarrow> nat option"
  ready_queue :: "nat option"
  current_actor :: "nat option"
  next_actor_id :: u32
  scheduler_enabled :: bool
  tick_count :: u32
  current_timeslice :: u32
  statistics :: scheduler_stats
  sched_ai_supervision :: bool
  scheduler_initialized :: bool
  actor_pool :: "nat \<Rightarrow> actor"
  actor_pool_used :: "nat \<Rightarrow> bool"
  message_pool_used :: "nat \<Rightarrow> bool"

text \<open>A write through an actor pointer: \<^verbatim>\<open>p->field = ...\<close>.\<close>

definition upd_actor :: "nat \<Rightarrow> (actor \<Rightarrow> actor) \<Rightarrow> scheduler \<Rightarrow> scheduler" where
  "upd_actor p f s = s\<lparr>actor_pool := (actor_pool s)(p := f (actor_pool s p))\<rparr>"

subsection \<open>Ready queue and selection\<close>

definition scheduler_select_next_actor :: "scheduler \<Rightarrow> nat option" where
  "scheduler_select_next_actor s =
     (if ready_queue s = None then None else ready_queue s)"

definition scheduler_add_to_ready_queue :: "scheduler \<Rightarrow> nat option \<Rightarrow> scheduler" where
  "scheduler_add_to_ready_queue s actor =
     (case actor of
        None \<Rightarrow> s
      | Some p \<Rightarrow>
          if a_state (actor_pool s p) \<noteq> ACTOR_STATE_READY then s
          else
            let s1 = upd_actor p (\<lambda>a. a\<lparr>a_next := ready_queue s, a_prev := None\<rparr>) s;
                s2 = (case ready_queue s1 of
                        None \<Rightarrow> s1
                      | Some q \<Rightarrow> upd_actor q (\<lambda>a. a\<lparr>a_prev := Some p\<rparr>) s1)
            in s2\<lparr>ready_queue := Some p,
                  statistics := (statistics s2)\<lparr>ready_actors := ready_actors (statistics s2) + 1\<rparr>\<rparr>)"

definition scheduler_remove_from_ready_queue :: "scheduler \<Rightarrow> nat option \<Rightarrow> scheduler" where
  "scheduler_remove_from_ready_queue s actor =
     (case actor of
        None \<Rightarrow> s
      | Some p \<Rightarrow>
          let s1 = (case a_prev (actor_pool s p) of
                      Some q \<Rightarrow> upd_actor q (\<lambda>a. a\<lparr>a_next := a_next (actor_pool s p)\<rparr>) s
                    | None \<Rightarrow> s\<lparr>ready_queue := a_next (actor_pool s p)\<rparr>);
              s2 = (case a_next (actor_pool s1 p) of
                      Some n \<Rightarrow> upd_actor n (\<lambda>a. a\<lparr>a_prev := a_prev (actor_pool s1 p)\<rparr>) s1
                    | None \<Rightarrow> s1);
              s3 = upd_actor p (\<lambda>a. a\<lparr>a_next := None, a_prev := None\<rparr>) s2
          in s3\<lparr>statistics := (statistics s3)\<lparr>ready_actors := ready_actors (statistics s3) - 1\<rparr>\<rparr>)"

definition scheduler_context_switch :: "scheduler \<Rightarrow> nat option \<Rightarrow> scheduler" where
  "scheduler_context_switch s next_actor =
     (let current = current_actor s in
      if current = next_actor then s
      else
        let s1 = (case current of
                    None \<Rightarrow> s
                  | Some c \<Rightarrow>
                      if a_state (actor_pool s c) = ACTOR_STATE_RUNNING
                      then upd_actor c (\<lambda>a. a\<lparr>a_state := ACTOR_STATE_READY\<rparr>) s else s)
        in (case next_actor of
              None \<Rightarrow> s1
            | Some n \<Rightarrow>
                let s2 = s1\<lparr>current_actor := Some n\<rparr>;
                    s3 = upd_actor n (\<lambda>a. a\<lparr>a_state := ACTOR_STATE_RUNNING,
                                             last_scheduled := ucast (tick_count s2)\<rparr>) s2
                in scheduler_remove_from_ready_queue s3 (Some n)))"

definition scheduler_schedule :: "scheduler \<Rightarrow> scheduler" where
  "scheduler_schedule s =
     (if \<not> scheduler_enabled s then s
      else
        let next_actor = scheduler_select_next_actor s;
            s1 = (if next_actor \<noteq> current_actor s then scheduler_context_switch s next_actor else s)
        in s1\<lparr>statistics := (statistics s1)
                 \<lparr>context_switches := context_switches (statistics s1) + 1\<rparr>\<rparr>)"

definition scheduler_yield :: "scheduler \<Rightarrow> scheduler" where
  "scheduler_yield s =
     (if \<not> scheduler_initialized s then s
      else
        let s1 = (case current_actor s of
                    None \<Rightarrow> s
                  | Some c \<Rightarrow>
                      if a_state (actor_pool s c) = ACTOR_STATE_RUNNING
                      then scheduler_add_to_ready_queue
                             (upd_actor c (\<lambda>a. a\<lparr>a_state := ACTOR_STATE_READY\<rparr>) s) (Some c)
                      else s)
        in scheduler_schedule s1)"

definition scheduler_start :: "scheduler \<Rightarrow> scheduler" where
  "scheduler_start s =
     (if \<not> scheduler_initialized s then s
      else scheduler_schedule (s\<lparr>scheduler_enabled := True\<rparr>))"

definition scheduler_ai_analyze_actors :: "scheduler \<Rightarrow> scheduler" where
  "scheduler_ai_analyze_actors s =
     (if \<not> sched_ai_supervision s then s
      else fold (\<lambda>i t.
             case actors t i of
               None \<Rightarrow> t
             | Some p \<Rightarrow>
                 let a = actor_pool t p in
                 if a_ai_monitored a \<and> a_messages_sent a > 0 \<and> a_messages_received a > 0
                    \<and> a_behavior_score a < 100
                 then upd_actor p (\<lambda>a. a\<lparr>a_behavior_score := a_behavior_score a + 1\<rparr>) t
                 else t)
           [0 ..< MAX_ACTORS] s)"

definition scheduler_timer_handler :: "scheduler \<Rightarrow> scheduler" where
  "scheduler_timer_handler s =
     (if \<not> scheduler_initialized s then s
      else
        let s1 = s\<lparr>tick_count := tick_count s + 1, current_timeslice := current_timeslice s + 1\<rparr>;
            s2 = (case current_actor s1 of
                    None \<Rightarrow> s1
                  | Some c \<Rightarrow> upd_actor c (\<lambda>a. a\<lparr>cpu_time_used := cpu_time_used a + 1\<rparr>) s1);
            s3 = (if current_timeslice s2 \<ge> SCHEDULER_TIMESLICE_MS
                  then scheduler_yield (s2\<lparr>current_timeslice := 0\<rparr>) else s2)
        in if tick_count s3 mod 1000 = 0 then scheduler_ai_analyze_actors s3 else s3)"

subsection \<open>Actor management\<close>

definition actor_get :: "scheduler \<Rightarrow> u32 \<Rightarrow> nat option" where
  "actor_get s aid = (if unat aid \<ge> MAX_ACTORS then None else actors s (unat aid))"

definition actor_get_current :: "scheduler \<Rightarrow> nat option" where
  "actor_get_current s = current_actor s"

definition actor_create_kernel_actor :: "scheduler \<Rightarrow> scheduler" where
  "actor_create_kernel_actor s =
     (let s1 = s\<lparr>actor_pool_used := (actor_pool_used s)(0 := True)\<rparr>;
          s2 = upd_actor 0 (\<lambda>a. a\<lparr>actor_id := 0, parent_id := 0,
                 a_state := ACTOR_STATE_RUNNING, a_priority := ACTOR_PRIORITY_CRITICAL,
                 a_flags := 0, stack_base := 0, stack_size := 0, entry_point := 0, user_data := 0,
                 message_queue := [], queue_size := 0, max_queue_size := 256,
                 cpu_time_used := 0, a_messages_sent := 0, a_messages_received := 0,
                 creation_time := 0, last_scheduled := 0,
                 memory_limit := 0, memory_used := 0,
                 a_behavior_score := 100, a_anomaly_count := 0, a_ai_monitored := False,
                 a_next := None, a_prev := None\<rparr>) s1
      in s2\<lparr>actors := (actors s2)(0 := Some 0), current_actor := Some 0\<rparr>)"

definition scheduler_init :: "scheduler \<Rightarrow> scheduler" where
  "scheduler_init s =
     (let s1 = s\<lparr>ready_queue := None, current_actor := None, next_actor_id := 1,
                 scheduler_enabled := False, tick_count := 0, current_timeslice := 0,
                 sched_ai_supervision := True,
                 actors := (\<lambda>i. if i < MAX_ACTORS then None else actors s i),
                 actor_pool_used := (\<lambda>i. if i < MAX_ACTORS then False else actor_pool_used s i),
                 message_pool_used :=
                   (\<lambda>i. if i < MAX_MESSAGES then False else message_pool_used s i),
                 statistics := \<lparr>context_switches = 0, actors_created = 0, actors_destroyed = 0,
                   messages_sent = 0, messages_delivered = 0, current_actors = 0,
                   ready_actors = 0\<rparr>\<rparr>
      in (actor_create_kernel_actor s1)\<lparr>scheduler_initialized := True\<rparr>)"

text \<open>
  \<^verbatim>\<open>actor_create\<close>. The entry point and the user data are pointer values (NULL is 0);
  \<^verbatim>\<open>stack\<close> is what \<^verbatim>\<open>kmalloc\<close> returns for the stack (0 when it fails). The result
  is the new actor id, 0 on failure.
\<close>

definition actor_create :: "scheduler \<Rightarrow> u32 \<Rightarrow> u32 \<Rightarrow> u8 \<Rightarrow> u32 \<Rightarrow> u32 \<Rightarrow> u32 \<times> scheduler" where
  "actor_create s entry udata priority ssize stack =
     (if \<not> scheduler_initialized s \<or> entry = 0 then (0, s)
      else case List.find (\<lambda>i. \<not> actor_pool_used s i) [1 ..< MAX_ACTORS] of
        None \<Rightarrow> (0, s)
      | Some i \<Rightarrow>
          let s1 = s\<lparr>actor_pool_used := (actor_pool_used s)(i := True)\<rparr>;
              s2 = upd_actor i (\<lambda>a. a\<lparr>actor_id := of_nat i,
                     parent_id := (case current_actor s1 of
                                     None \<Rightarrow> 0 | Some c \<Rightarrow> actor_id (actor_pool s1 c)),
                     a_state := ACTOR_STATE_CREATED, a_priority := priority, a_flags := 0\<rparr>) s1;
              ssize' = (if ssize = 0 then ACTOR_STACK_SIZE else ssize);
              s3 = upd_actor i (\<lambda>a. a\<lparr>stack_base := stack\<rparr>) s2
          in if stack = 0 then (0, s3\<lparr>actor_pool_used := (actor_pool_used s3)(i := False)\<rparr>)
             else
               let s4 = upd_actor i (\<lambda>a. a\<lparr>stack_size := ssize', entry_point := entry,
                          user_data := udata,
                          message_queue := [], queue_size := 0, max_queue_size := 64,
                          cpu_time_used := 0, a_messages_sent := 0, a_messages_received := 0,
                          creation_time := ucast (tick_count s3), last_scheduled := 0,
                          memory_limit := 1024 * 1024, memory_used := ssize',
                          a_behavior_score := 100, a_anomaly_count := 0, a_ai_monitored := True,
                          a_next := None, a_prev := None\<rparr>) s3
               in (of_nat i,
                   s4\<lparr>actors := (actors s4)(i := Some i),
                      statistics := (statistics s4)
                        \<lparr>actors_created := actors_created (statistics s4) + 1,
                         current_actors := current_actors (statistics s4) + 1\<rparr>\<rparr>))"

definition actor_start :: "scheduler \<Rightarrow> u32 \<Rightarrow> bool \<times> scheduler" where
  "actor_start s aid =
     (case actor_get s aid of
        None \<Rightarrow> (False, s)
      | Some p \<Rightarrow>
          if a_state (actor_pool s p) \<noteq> ACTOR_STATE_CREATED then (False, s)
          else (True, scheduler_add_to_ready_queue
                        (upd_actor p (\<lambda>a. a\<lparr>a_state := ACTOR_STATE_READY\<rparr>) s) (Some p)))"

subsection \<open>Messages and mailboxes\<close>

text \<open>\<^verbatim>\<open>message_allocate\<close>: the first free slot of the message pool, marked used.\<close>

definition message_allocate :: "scheduler \<Rightarrow> nat option \<times> scheduler" where
  "message_allocate s =
     (case List.find (\<lambda>i. \<not> message_pool_used s i) [0 ..< MAX_MESSAGES] of
        None \<Rightarrow> (None, s)
      | Some i \<Rightarrow> (Some i, s\<lparr>message_pool_used := (message_pool_used s)(i := True)\<rparr>))"

text \<open>
  \<^verbatim>\<open>message_free\<close>: releases the payload and marks the message's pool slot free.
  The code does not unlink the message, so for a message that is still in a mailbox the
  cell stays in the linked list with its slot free; this definition is the code's
  behaviour for a message that is in no mailbox, and for the messages of the mailbox
  that \<^verbatim>\<open>actor_clear_message_queue\<close> empties as it frees them.
\<close>

definition message_free :: "scheduler \<Rightarrow> message option \<Rightarrow> scheduler" where
  "message_free s m =
     (case m of
        None \<Rightarrow> s
      | Some msg \<Rightarrow>
          if pool_slot msg < MAX_MESSAGES
          then s\<lparr>message_pool_used := (message_pool_used s)(pool_slot msg := False)\<rparr>
          else s)"

text \<open>
  \<^verbatim>\<open>actor_add_message\<close>: the NULL checks, the capacity test, then the append at the
  tail of the mailbox and the increment of the counter.
\<close>

definition actor_add_message :: "scheduler \<Rightarrow> nat option \<Rightarrow> message option \<Rightarrow> bool \<times> scheduler" where
  "actor_add_message s actor msg =
     (case (actor, msg) of
        (Some p, Some m) \<Rightarrow>
          if queue_size (actor_pool s p) \<ge> max_queue_size (actor_pool s p) then (False, s)
          else (True, upd_actor p (\<lambda>a. a\<lparr>message_queue := message_queue a @ [m],
                                         queue_size := queue_size a + 1\<rparr>) s)
      | _ \<Rightarrow> (False, s))"

definition actor_clear_message_queue :: "scheduler \<Rightarrow> nat \<Rightarrow> scheduler" where
  "actor_clear_message_queue s p =
     upd_actor p (\<lambda>a. a\<lparr>message_queue := [], queue_size := 0\<rparr>)
       (fold (\<lambda>m t. message_free t (Some m)) (message_queue (actor_pool s p)) s)"

definition actor_terminate :: "scheduler \<Rightarrow> u32 \<Rightarrow> scheduler" where
  "actor_terminate s aid =
     (case actor_get s aid of
        None \<Rightarrow> s
      | Some p \<Rightarrow>
          let s1 = scheduler_remove_from_ready_queue s (Some p);
              s2 = actor_clear_message_queue s1 p;
              s3 = upd_actor p (\<lambda>a. a\<lparr>a_state := ACTOR_STATE_FINISHED\<rparr>) s2
          in s3\<lparr>statistics := (statistics s3)
                   \<lparr>actors_destroyed := actors_destroyed (statistics s3) + 1,
                    current_actors := current_actors (statistics s3) - 1\<rparr>,
                actors := (actors s3)(unat aid := None),
                actor_pool_used := (actor_pool_used s3)(unat aid := False)\<rparr>)"

text \<open>
  \<^verbatim>\<open>message_send_async\<close>. \<^verbatim>\<open>data\<close> is the caller's buffer (None for a NULL pointer),
  of which \<^verbatim>\<open>psize\<close> bytes are copied; \<^verbatim>\<open>alloc_ok\<close> tells whether \<^verbatim>\<open>kmalloc\<close>
  returns a buffer for the copy.
\<close>

definition message_send_async ::
  "scheduler \<Rightarrow> u32 \<Rightarrow> u8 \<Rightarrow> u8 list option \<Rightarrow> u32 \<Rightarrow> bool \<Rightarrow> bool \<times> scheduler" where
  "message_send_async s rid ty data psize alloc_ok =
     (if \<not> scheduler_initialized s then (False, s)
      else case actor_get s rid of
        None \<Rightarrow> (False, s)
      | Some r \<Rightarrow>
          (case message_allocate s of
             (None, s0) \<Rightarrow> (False, s0)
           | (Some slot, s1) \<Rightarrow>
               let m = \<lparr>sender_id = (case current_actor s1 of
                                       None \<Rightarrow> 0 | Some c \<Rightarrow> actor_id (actor_pool s1 c)),
                        recipient_id = rid,
                        message_id = ucast (messages_sent (statistics s1) + 1),
                        msg_type = ty,
                        msg_priority = ACTOR_PRIORITY_NORMAL,
                        msg_flags = 0,
                        payload_size = psize,
                        payload = None,
                        msg_timestamp = ucast (tick_count s1),
                        deadline = 0,
                        reply_to = 0,
                        requires_reply = False,
                        pool_slot = slot\<rparr>;
                   copy = (case data of None \<Rightarrow> None
                           | Some bytes \<Rightarrow> if psize > 0 then Some (take (unat psize) bytes) else None)
               in if copy \<noteq> None \<and> \<not> alloc_ok then (False, message_free s1 (Some m))
                  else
                    let m' = m\<lparr>payload := copy\<rparr>;
                        (ok, s2) = actor_add_message s1 (Some r) (Some m')
                    in if ok then
                         let s3 = s2\<lparr>statistics := (statistics s2)
                                     \<lparr>messages_sent := messages_sent (statistics s2) + 1\<rparr>\<rparr>;
                             s4 = (case current_actor s3 of
                                     None \<Rightarrow> s3
                                   | Some c \<Rightarrow> upd_actor c
                                       (\<lambda>a. a\<lparr>a_messages_sent := a_messages_sent a + 1\<rparr>) s3)
                         in if a_state (actor_pool s4 r) = ACTOR_STATE_BLOCKED
                            then (True, scheduler_add_to_ready_queue
                                          (upd_actor r (\<lambda>a. a\<lparr>a_state := ACTOR_STATE_READY\<rparr>) s4)
                                          (Some r))
                            else (True, s4)
                       else (False, message_free s2 (Some m'))))"

definition message_receive :: "scheduler \<Rightarrow> message option \<times> scheduler" where
  "message_receive s =
     (case current_actor s of
        None \<Rightarrow> (None, s)
      | Some c \<Rightarrow>
          (case message_queue (actor_pool s c) of
             [] \<Rightarrow> (None, s)
           | m # rest \<Rightarrow>
               let s1 = upd_actor c (\<lambda>a. a\<lparr>message_queue := rest, queue_size := queue_size a - 1,
                          a_messages_received := a_messages_received a + 1\<rparr>) s
               in (Some m, s1\<lparr>statistics := (statistics s1)
                     \<lparr>messages_delivered := messages_delivered (statistics s1) + 1\<rparr>\<rparr>)))"

text \<open>
  \<^verbatim>\<open>message_wait\<close>. The code has no use of \<^verbatim>\<open>timeout_ms\<close>; the context switch does
  not transfer control in this code, so the second \<^verbatim>\<open>message_receive\<close> runs right
  after \<^verbatim>\<open>scheduler_yield\<close> returns.
\<close>

definition message_wait :: "scheduler \<Rightarrow> u32 \<Rightarrow> message option \<times> scheduler" where
  "message_wait s timeout_ms =
     (case current_actor s of
        None \<Rightarrow> (None, s)
      | Some c \<Rightarrow>
          (case message_receive s of
             (Some m, s1) \<Rightarrow> (Some m, s1)
           | (None, s1) \<Rightarrow>
               let s2 = upd_actor c (\<lambda>a. a\<lparr>a_state := ACTOR_STATE_BLOCKED\<rparr>) s1;
                   s3 = scheduler_remove_from_ready_queue s2 (Some c);
                   s4 = scheduler_yield s3
               in message_receive s4))"

text \<open>The state before \<^verbatim>\<open>scheduler_init\<close>: zero-initialised statics.\<close>

definition zero_actor :: actor where
  "zero_actor = \<lparr>actor_id = 0, parent_id = 0, a_state = 0, a_priority = 0, a_flags = 0,
     stack_base = 0, stack_size = 0, entry_point = 0, user_data = 0,
     message_queue = [], queue_size = 0, max_queue_size = 0,
     cpu_time_used = 0, a_messages_sent = 0, a_messages_received = 0, creation_time = 0,
     last_scheduled = 0, memory_limit = 0, memory_used = 0,
     a_behavior_score = 0, a_anomaly_count = 0, a_ai_monitored = False,
     a_next = None, a_prev = None\<rparr>"

definition scheduler_boot :: scheduler where
  "scheduler_boot = \<lparr>actors = (\<lambda>_. None), ready_queue = None, current_actor = None,
     next_actor_id = 0, scheduler_enabled = False, tick_count = 0, current_timeslice = 0,
     statistics = \<lparr>context_switches = 0, actors_created = 0, actors_destroyed = 0,
       messages_sent = 0, messages_delivered = 0, current_actors = 0, ready_actors = 0\<rparr>,
     sched_ai_supervision = False, scheduler_initialized = False,
     actor_pool = (\<lambda>_. zero_actor), actor_pool_used = (\<lambda>_. False),
     message_pool_used = (\<lambda>_. False)\<rparr>"

section \<open>modules.c: the module registry\<close>

subsection \<open>modules.h: constants and data structures\<close>

definition MAX_MODULES :: nat where "MAX_MODULES = 64"
definition MAX_MODULE_NAME :: nat where "MAX_MODULE_NAME = 64"
definition MAX_MODULE_SIZE :: u32 where "MAX_MODULE_SIZE = 1024 * 1024"
definition MODULE_MAGIC :: u32 where "MODULE_MAGIC = 0x4D4F44"
definition MODULE_VERSION :: u32 where "MODULE_VERSION = 1"
definition SIZEOF_MODULE_HEADER :: u32 where "SIZEOF_MODULE_HEADER = 572"

definition MODULE_STATE_UNLOADED :: u8 where "MODULE_STATE_UNLOADED = 0"
definition MODULE_STATE_LOADING :: u8 where "MODULE_STATE_LOADING = 1"
definition MODULE_STATE_LOADED :: u8 where "MODULE_STATE_LOADED = 2"
definition MODULE_STATE_RUNNING :: u8 where "MODULE_STATE_RUNNING = 3"
definition MODULE_STATE_UNLOADING :: u8 where "MODULE_STATE_UNLOADING = 4"
definition MODULE_STATE_ERROR :: u8 where "MODULE_STATE_ERROR = 5"
definition MODULE_STATE_SUSPENDED :: u8 where "MODULE_STATE_SUSPENDED = 6"

definition MODULE_FLAG_CORE :: u16 where "MODULE_FLAG_CORE = 0x01"
definition MODULE_FLAG_AUTO_START :: u16 where "MODULE_FLAG_AUTO_START = 0x02"
definition MODULE_FLAG_HOT_SWAP :: u16 where "MODULE_FLAG_HOT_SWAP = 0x04"
definition MODULE_FLAG_AI_MONITOR :: u16 where "MODULE_FLAG_AI_MONITOR = 0x08"

text \<open>
  The header at the start of a module image. \<^verbatim>\<open>h_name\<close> is the content of the
  64-byte name field up to its first NUL.
\<close>

record module_header =
  magic :: u32
  version :: u32
  module_version :: u32
  h_name :: string
  h_type :: u8
  h_priority :: u8
  h_flags :: u16
  code_size :: u32
  data_size :: u32
  bss_size :: u32
  h_entry_point :: u32
  h_exit_point :: u32

text \<open>
  A module record of the pool. Pointers are 32-bit values, NULL is 0; \<^verbatim>\<open>m_name\<close> is
  the NUL-terminated content of the name field. The list pointers \<^verbatim>\<open>next\<close> and
  \<^verbatim>\<open>prev\<close> are represented by the list \<^verbatim>\<open>loaded_modules\<close> below.
\<close>

record module =
  module_id :: u32
  m_name :: string
  m_state :: u8
  m_type :: u8
  m_flags :: u16
  base_address :: u32
  code_address :: u32
  data_address :: u32
  total_size :: u32
  init_func :: u32
  exit_func :: u32
  ioctl_func :: u32
  symbol_count :: u32
  dependency_count :: u32
  dependent_count :: u32
  load_time :: u64
  cpu_time :: u64
  memory_allocated :: u64
  m_function_calls :: u32
  error_count :: u32
  m_behavior_score :: u32
  m_anomaly_count :: u32
  m_ai_monitored :: bool
  ref_count :: u32

record module_stats =
  modules_loaded :: u32
  modules_unloaded :: u32
  hot_swaps :: u32
  load_errors :: u32
  dependency_failures :: u32
  symbol_lookups :: u32
  total_memory_used :: u64
  ai_interventions :: u32

text \<open>
  \<^verbatim>\<open>kernel_module_system\<close> and \<^verbatim>\<open>module_system_initialized\<close>. The doubly linked
  list of loaded modules is the list of their pool indices from the head on:
  \<^verbatim>\<open>module_add_to_list\<close> is only called on a slot that \<^verbatim>\<open>module_allocate\<close> has
  just handed out, and \<^verbatim>\<open>module_remove_from_list\<close> only on a module that
  \<^verbatim>\<open>module_get\<close> has just found by walking the list, so the links always form a
  proper list.
\<close>

record module_system =
  loaded_modules :: "nat list"
  module_count :: u32
  next_module_id :: u32
  module_pool :: "nat \<Rightarrow> module"
  module_pool_used :: "nat \<Rightarrow> bool"
  global_symbol_count :: u32
  system_enabled :: bool
  hot_swap_enabled :: bool
  ms_ai_supervision :: bool
  mstats :: module_stats
  signature_checking :: bool
  sandboxing_enabled :: bool
  module_system_initialized :: bool

definition upd_module :: "nat \<Rightarrow> (module \<Rightarrow> module) \<Rightarrow> module_system \<Rightarrow> module_system" where
  "upd_module p f s = s\<lparr>module_pool := (module_pool s)(p := f (module_pool s p))\<rparr>"

subsection \<open>modules.c: functions\<close>

definition modules_init :: "module_system \<Rightarrow> module_system" where
  "modules_init s =
     s\<lparr>loaded_modules := [], module_count := 0, next_module_id := 1,
       module_pool_used := (\<lambda>i. if i < MAX_MODULES then False else module_pool_used s i),
       global_symbol_count := 0,
       system_enabled := True, hot_swap_enabled := True, ms_ai_supervision := True,
       signature_checking := False, sandboxing_enabled := False,
       mstats := \<lparr>modules_loaded = 0, modules_unloaded = 0, hot_swaps = 0, load_errors = 0,
         dependency_failures = 0, symbol_lookups = 0, total_memory_used = 0,
         ai_interventions = 0\<rparr>,
       module_system_initialized := True\<rparr>"

definition module_get :: "module_system \<Rightarrow> u32 \<Rightarrow> nat option" where
  "module_get s mid =
     (if \<not> module_system_initialized s then None
      else List.find (\<lambda>p. module_id (module_pool s p) = mid) (loaded_modules s))"

definition module_find_by_name :: "module_system \<Rightarrow> string option \<Rightarrow> nat option" where
  "module_find_by_name s nm =
     (case nm of
        None \<Rightarrow> None
      | Some n \<Rightarrow>
          if \<not> module_system_initialized s then None
          else List.find (\<lambda>p. m_name (module_pool s p) = n) (loaded_modules s))"

definition module_validate :: "module_header option \<Rightarrow> u32 \<Rightarrow> bool" where
  "module_validate module_data sz =
     (case module_data of
        None \<Rightarrow> False
      | Some header \<Rightarrow>
          if sz < SIZEOF_MODULE_HEADER then False
          else if magic header \<noteq> MODULE_MAGIC then False
          else if version header \<noteq> MODULE_VERSION then False
          else if sz < SIZEOF_MODULE_HEADER + code_size header + data_size header then False
          else if code_size header > MAX_MODULE_SIZE \<or> data_size header > MAX_MODULE_SIZE
                  \<or> bss_size header > MAX_MODULE_SIZE then False
          else True)"

definition module_allocate :: "module_system \<Rightarrow> nat option \<times> module_system" where
  "module_allocate s =
     (case List.find (\<lambda>i. \<not> module_pool_used s i) [0 ..< MAX_MODULES] of
        None \<Rightarrow> (None, s)
      | Some i \<Rightarrow> (Some i, s\<lparr>module_pool_used := (module_pool_used s)(i := True)\<rparr>))"

definition module_free :: "module_system \<Rightarrow> nat option \<Rightarrow> module_system" where
  "module_free s m =
     (case m of
        None \<Rightarrow> s
      | Some p \<Rightarrow>
          if p < MAX_MODULES then s\<lparr>module_pool_used := (module_pool_used s)(p := False)\<rparr> else s)"

definition module_add_to_list :: "module_system \<Rightarrow> nat option \<Rightarrow> module_system" where
  "module_add_to_list s m =
     (case m of
        None \<Rightarrow> s
      | Some p \<Rightarrow> s\<lparr>loaded_modules := p # loaded_modules s, module_count := module_count s + 1\<rparr>)"

definition module_remove_from_list :: "module_system \<Rightarrow> nat option \<Rightarrow> module_system" where
  "module_remove_from_list s m =
     (case m of
        None \<Rightarrow> s
      | Some p \<Rightarrow> s\<lparr>loaded_modules := remove1 p (loaded_modules s),
                    module_count := module_count s - 1\<rparr>)"

text \<open>
  \<^verbatim>\<open>module_start\<close>; \<^verbatim>\<open>init_result\<close> is what the module's own init function returns
  when it is called. Module code is outside the registry; its calls are taken to
  leave the registry state alone.
\<close>

definition module_start :: "module_system \<Rightarrow> u32 \<Rightarrow> int \<Rightarrow> bool \<times> module_system" where
  "module_start s mid init_result =
     (case module_get s mid of
        None \<Rightarrow> (False, s)
      | Some p \<Rightarrow>
          if m_state (module_pool s p) \<noteq> MODULE_STATE_LOADED then (False, s)
          else if init_func (module_pool s p) \<noteq> 0 \<and> init_result \<noteq> 0 then
            (False, upd_module p (\<lambda>m. m\<lparr>m_state := MODULE_STATE_ERROR,
                                         error_count := error_count m + 1\<rparr>) s)
          else (True, upd_module p (\<lambda>m. m\<lparr>m_state := MODULE_STATE_RUNNING\<rparr>) s))"

definition module_stop :: "module_system \<Rightarrow> u32 \<Rightarrow> bool \<times> module_system" where
  "module_stop s mid =
     (case module_get s mid of
        None \<Rightarrow> (False, s)
      | Some p \<Rightarrow>
          if m_state (module_pool s p) \<noteq> MODULE_STATE_RUNNING then (False, s)
          else (True, upd_module p (\<lambda>m. m\<lparr>m_state := MODULE_STATE_LOADED\<rparr>) s))"

text \<open>
  \<^verbatim>\<open>module_load\<close>. \<^verbatim>\<open>module_data\<close> is the image (None for a NULL pointer) and
  \<^verbatim>\<open>sz\<close> its size; \<^verbatim>\<open>mem\<close> is what \<^verbatim>\<open>kmalloc\<close> returns for the module's region
  (0 when it fails). The copy of the code and data bytes into that region and the
  zeroing of the BSS do not touch the registry and are left out. The result is the new
  module id, 0 on failure.
\<close>

definition module_load ::
  "module_system \<Rightarrow> module_header option \<Rightarrow> u32 \<Rightarrow> u32 \<Rightarrow> int \<Rightarrow> u32 \<times> module_system" where
  "module_load s module_data sz mem init_result =
     (case module_data of
        None \<Rightarrow> (0, s)
      | Some header \<Rightarrow>
          if \<not> module_system_initialized s \<or> sz = 0 then (0, s)
          else if \<not> module_validate module_data sz then
            (0, s\<lparr>mstats := (mstats s)\<lparr>load_errors := load_errors (mstats s) + 1\<rparr>\<rparr>)
          else if module_find_by_name s (Some (h_name header)) \<noteq> None then (0, s)
          else
            (case module_allocate s of
               (None, s0) \<Rightarrow>
                 (0, s0\<lparr>mstats := (mstats s0)\<lparr>load_errors := load_errors (mstats s0) + 1\<rparr>\<rparr>)
             | (Some p, s0) \<Rightarrow>
                 let total = code_size header + data_size header + bss_size header;
                     s1 = upd_module p (\<lambda>m. m\<lparr>module_id := next_module_id s0,
                            m_name := take (MAX_MODULE_NAME - 1) (h_name header),
                            m_state := MODULE_STATE_LOADING,
                            m_type := h_type header,
                            m_flags := h_flags header,
                            base_address := mem\<rparr>)
                          (s0\<lparr>next_module_id := next_module_id s0 + 1\<rparr>)
                 in if mem = 0 then
                      (let s2 = module_free s1 (Some p)
                       in (0, s2\<lparr>mstats := (mstats s2)\<lparr>load_errors := load_errors (mstats s2) + 1\<rparr>\<rparr>))
                    else
                      let s2 = upd_module p (\<lambda>m. m\<lparr>total_size := total,
                                 code_address := mem,
                                 data_address := mem + code_size header,
                                 init_func := (if h_entry_point header \<noteq> 0
                                               then mem + h_entry_point header else 0),
                                 exit_func := (if h_exit_point header \<noteq> 0
                                               then mem + h_exit_point header else 0),
                                 ioctl_func := 0,
                                 symbol_count := 0,
                                 dependency_count := 0,
                                 dependent_count := 0,
                                 load_time := 0,
                                 cpu_time := 0,
                                 memory_allocated := ucast total,
                                 m_function_calls := 0,
                                 error_count := 0,
                                 m_behavior_score := 100,
                                 m_anomaly_count := 0,
                                 m_ai_monitored := (m_flags m AND MODULE_FLAG_AI_MONITOR \<noteq> 0),
                                 ref_count := 1\<rparr>) s1;
                          s3 = module_add_to_list s2 (Some p);
                          s4 = s3\<lparr>mstats := (mstats s3)
                                  \<lparr>modules_loaded := modules_loaded (mstats s3) + 1,
                                   total_memory_used := total_memory_used (mstats s3) + ucast total\<rparr>\<rparr>;
                          s5 = upd_module p (\<lambda>m. m\<lparr>m_state := MODULE_STATE_LOADED\<rparr>) s4;
                          s6 = (if m_flags (module_pool s5 p) AND MODULE_FLAG_AUTO_START \<noteq> 0
                                then snd (module_start s5 (module_id (module_pool s5 p)) init_result)
                                else s5)
                      in (module_id (module_pool s6 p), s6)))"

definition module_unload :: "module_system \<Rightarrow> u32 \<Rightarrow> bool \<times> module_system" where
  "module_unload s mid =
     (case module_get s mid of
        None \<Rightarrow> (False, s)
      | Some p \<Rightarrow>
          if m_flags (module_pool s p) AND MODULE_FLAG_CORE \<noteq> 0 then (False, s)
          else if dependent_count (module_pool s p) > 0 then (False, s)
          else
            let s1 = upd_module p (\<lambda>m. m\<lparr>m_state := MODULE_STATE_UNLOADING\<rparr>) s;
                s2 = module_remove_from_list s1 (Some p);
                s3 = s2\<lparr>mstats := (mstats s2)
                        \<lparr>modules_unloaded := modules_unloaded (mstats s2) + 1,
                         total_memory_used := total_memory_used (mstats s2)
                                               - memory_allocated (module_pool s2 p)\<rparr>\<rparr>
            in (True, module_free s3 (Some p)))"

text \<open>The registry before \<^verbatim>\<open>modules_init\<close>: zero-initialised statics.\<close>

definition zero_module :: module where
  "zero_module = \<lparr>module_id = 0, m_name = [], m_state = 0, m_type = 0, m_flags = 0,
     base_address = 0, code_address = 0, data_address = 0, total_size = 0,
     init_func = 0, exit_func = 0, ioctl_func = 0,
     symbol_count = 0, dependency_count = 0, dependent_count = 0,
     load_time = 0, cpu_time = 0, memory_allocated = 0, m_function_calls = 0, error_count = 0,
     m_behavior_score = 0, m_anomaly_count = 0, m_ai_monitored = False, ref_count = 0\<rparr>"

definition modules_boot :: module_system where
  "modules_boot = \<lparr>loaded_modules = [], module_count = 0, next_module_id = 0,
     module_pool = (\<lambda>_. zero_module), module_pool_used = (\<lambda>_. False),
     global_symbol_count = 0, system_enabled = False, hot_swap_enabled = False,
     ms_ai_supervision = False,
     mstats = \<lparr>modules_loaded = 0, modules_unloaded = 0, hot_swaps = 0, load_errors = 0,
       dependency_failures = 0, symbol_lookups = 0, total_memory_used = 0, ai_interventions = 0\<rparr>,
     signature_checking = False, sandboxing_enabled = False,
     module_system_initialized = False\<rparr>"

text \<open>
  The kernel's globals side by side. \<^verbatim>\<open>sandbox_system\<close> is \<^verbatim>\<open>static\<close> in
  sandboxing.c: the registry can reach it only through the \<^verbatim>\<open>sandboxing_*\<close>
  functions, and modules.c calls none of them.
\<close>

record kernel =
  registry :: module_system
  sandbox :: sandboxing_system_state

definition kernel_module_load ::
  "kernel \<Rightarrow> module_header option \<Rightarrow> u32 \<Rightarrow> u32 \<Rightarrow> int \<Rightarrow> u32 \<times> kernel" where
  "kernel_module_load k module_data sz mem init_result =
     (let (r, ms) = module_load (registry k) module_data sz mem init_result
      in (r, k\<lparr>registry := ms\<rparr>))"

definition kernel_boot :: kernel where
  "kernel_boot = \<lparr>registry = modules_init modules_boot,
                  sandbox = snd (sandboxing_init sandbox_boot)\<rparr>"

section \<open>Histories\<close>

subsection \<open>Scheduler histories\<close>

text \<open>
  One call of a function of the scheduler's interface, with its arguments and with
  what the allocator answers during the call. \<open>OpFree\<close> carries any message, also
  one that is still in a mailbox; the histories in which the mailbox lists stand for
  the code's linked lists are those that satisfy \<open>owned_run\<close> below.
\<close>

datatype sched_op =
    OpInit
  | OpStart
  | OpSchedule
  | OpYield
  | OpTimer
  | OpCreate u32 u32 u8 u32 u32
  | OpActorStart u32
  | OpTerminate u32
  | OpSend u32 u8 "u8 list option" u32 bool
  | OpReceive
  | OpWait u32
  | OpFree "message option"

text \<open>
  What a call does to mailboxes, as seen from outside: \<open>Enq p m\<close> when a send returned
  true and put \<open>m\<close> into the mailbox of the actor in pool slot \<open>p\<close>, \<open>Deq p m\<close>
  when a receive or a wait handed \<open>m\<close> out of that mailbox.
\<close>

datatype event = Enq nat message | Deq nat message

fun sched_exec :: "scheduler \<Rightarrow> sched_op \<Rightarrow> event list \<times> scheduler" where
  "sched_exec s OpInit = ([], scheduler_init s)"
| "sched_exec s OpStart = ([], scheduler_start s)"
| "sched_exec s OpSchedule = ([], scheduler_schedule s)"
| "sched_exec s OpYield = ([], scheduler_yield s)"
| "sched_exec s OpTimer = ([], scheduler_timer_handler s)"
| "sched_exec s (OpCreate entry udata priority ssize stack) =
     ([], snd (actor_create s entry udata priority ssize stack))"
| "sched_exec s (OpActorStart aid) = ([], snd (actor_start s aid))"
| "sched_exec s (OpTerminate aid) = ([], actor_terminate s aid)"
| "sched_exec s (OpSend rid ty data psize alloc_ok) =
     (let (ok, s') = message_send_async s rid ty data psize alloc_ok
      in (case actor_get s rid of
            Some r \<Rightarrow> if ok then [Enq r (last (message_queue (actor_pool s' r)))] else []
          | None \<Rightarrow> [],
          s'))"
| "sched_exec s OpReceive =
     (let (m, s') = message_receive s
      in (case (m, current_actor s) of
            (Some msg, Some c) \<Rightarrow> [Deq c msg]
          | _ \<Rightarrow> [],
          s'))"
| "sched_exec s (OpWait timeout_ms) =
     (let (m, s') = message_wait s timeout_ms
      in (case (m, current_actor s) of
            (Some msg, Some c) \<Rightarrow>
              if message_queue (actor_pool s c) \<noteq> [] then [Deq c msg]
              else (case current_actor s' of Some c' \<Rightarrow> [Deq c' msg] | None \<Rightarrow> [])
          | _ \<Rightarrow> [],
          s'))"
| "sched_exec s (OpFree m) = ([], message_free s m)"

fun sched_run :: "scheduler \<Rightarrow> sched_op list \<Rightarrow> event list \<times> scheduler" where
  "sched_run s [] = ([], s)"
| "sched_run s (op # ops) =
     (let (e1, s1) = sched_exec s op; (e2, s2) = sched_run s1 ops in (e1 @ e2, s2))"

fun enqueued :: "nat \<Rightarrow> event list \<Rightarrow> message list" where
  "enqueued p [] = []"
| "enqueued p (Enq q m # es) = (if q = p then m # enqueued p es else enqueued p es)"
| "enqueued p (Deq q m # es) = enqueued p es"

fun delivered :: "nat \<Rightarrow> event list \<Rightarrow> message list" where
  "delivered p [] = []"
| "delivered p (Deq q m # es) = (if q = p then m # delivered p es else delivered p es)"
| "delivered p (Enq q m # es) = delivered p es"

text \<open>The calls that discard a mailbox: they reset or release actor slots.\<close>

fun discards :: "sched_op \<Rightarrow> bool" where
  "discards OpInit = True"
| "discards (OpCreate entry udata priority ssize stack) = True"
| "discards (OpTerminate aid) = True"
| "discards _ = False"

text \<open>
  The mailbox bound for one actor record, on the counter the code tests and on the
  mailbox itself, and for every slot of the pool.
\<close>

definition mbox_ok :: "actor \<Rightarrow> bool" where
  "mbox_ok a = (unat (queue_size a) = length (message_queue a)
                \<and> length (message_queue a) \<le> unat (max_queue_size a))"

definition mailbox_inv :: "scheduler \<Rightarrow> bool" where
  "mailbox_inv s = (\<forall>p. mbox_ok (actor_pool s p))"

text \<open>
  The pool slots linked into the mailbox of the actor in pool slot \<open>p\<close>, head first,
  and the slots linked into some mailbox.
\<close>

definition slots :: "scheduler \<Rightarrow> nat \<Rightarrow> nat list" where
  "slots s p = map pool_slot (message_queue (actor_pool s p))"

definition linked :: "scheduler \<Rightarrow> nat \<Rightarrow> bool" where
  "linked s i \<longleftrightarrow> (\<exists>p. i \<in> set (slots s p))"

text \<open>
  The message pool is well formed: no slot occurs twice in a mailbox or in two
  mailboxes, and every linked slot is marked used. This is what makes each mailbox of
  the code a NULL-terminated list without sharing, so that the list of the model
  describes it, and what keeps \<^verbatim>\<open>message_allocate\<close> from handing out a linked cell.
\<close>

definition pool_wf :: "scheduler \<Rightarrow> bool" where
  "pool_wf s \<longleftrightarrow>
     (\<forall>p. distinct (slots s p))
     \<and> (\<forall>p q. p \<noteq> q \<longrightarrow> set (slots s p) \<inter> set (slots s q) = {})
     \<and> (\<forall>i. linked s i \<longrightarrow> message_pool_used s i)"

text \<open>
  The ownership rule of the messaging interface, as a condition on a call in a state:
  \<^verbatim>\<open>message_free\<close> is called only on a message that is in no mailbox (the message
  belongs to the mailbox from the send until a receive hands it out), and
  \<^verbatim>\<open>scheduler_init\<close>, which marks every pool slot free and clears every
  \<^verbatim>\<open>next\<close> pointer of the pool, is called only while every mailbox is empty. The
  other calls are always allowed. \<open>owned_run\<close> is the rule along a history.
\<close>

fun op_owned :: "scheduler \<Rightarrow> sched_op \<Rightarrow> bool" where
  "op_owned s (OpFree m) = (case m of None \<Rightarrow> True | Some msg \<Rightarrow> \<not> linked s (pool_slot msg))"
| "op_owned s OpInit = (\<forall>p. message_queue (actor_pool s p) = [])"
| "op_owned s _ = True"

fun owned_run :: "scheduler \<Rightarrow> sched_op list \<Rightarrow> bool" where
  "owned_run s [] = True"
| "owned_run s (op # ops) = (op_owned s op \<and> owned_run (snd (sched_exec s op)) ops)"

subsection \<open>Registry histories\<close>

datatype module_op =
    MInit
  | MLoad "module_header option" u32 u32 int
  | MUnload u32
  | MStart u32 int
  | MStop u32

fun module_exec :: "module_system \<Rightarrow> module_op \<Rightarrow> module_system" where
  "module_exec s MInit = modules_init s"
| "module_exec s (MLoad module_data sz mem init_result) =
     snd (module_load s module_data sz mem init_result)"
| "module_exec s (MUnload mid) = snd (module_unload s mid)"
| "module_exec s (MStart mid init_result) = snd (module_start s mid init_result)"
| "module_exec s (MStop mid) = snd (module_stop s mid)"

subsection \<open>Well-formed limit tables\<close>

text \<open>
  Every live limit record has a resource type below \<^verbatim>\<open>MAX_RESOURCE_LIMITS\<close> and no
  type occurs twice: what \<^verbatim>\<open>sandboxing_set_resource_limit\<close>, the only function that
  adds records, maintains.
\<close>

definition limits_wf :: "resource_limit list \<Rightarrow> bool" where
  "limits_wf ls = (distinct (map resource_type ls)
                   \<and> list_all (\<lambda>l. unat (resource_type l) < MAX_RESOURCE_LIMITS) ls)"

text \<open>The state of scenario S5 before the violations: one sandbox, level User, module 1.\<close>

definition user_sandbox_state :: sandboxing_system_state where
  "user_sandbox_state =
     snd (sandboxing_create_sandbox (snd (sandboxing_init sandbox_boot)) 1 SANDBOX_LEVEL_USER)"

definition violate_once :: "sandboxing_system_state \<Rightarrow> sandboxing_system_state" where
  "violate_once s =
     snd (sandboxing_handle_violation s 1 VIOLATION_CAPABILITY (Some ''capability violation''))"

text \<open>A scheduler with two started actors: 1 created Critical, then 2 created Low.\<close>

definition two_actors :: scheduler where
  "two_actors =
     (let s0 = scheduler_init scheduler_boot;
          s1 = snd (actor_create s0 0x1000 0 ACTOR_PRIORITY_CRITICAL 4096 0x8000);
          s2 = snd (actor_create s1 0x2000 0 ACTOR_PRIORITY_LOW 4096 0x9000);
          s3 = snd (actor_start s2 1)
      in snd (actor_start s3 2))"

text \<open>An image header that passes validation: 16 bytes of code, no flags.\<close>

definition mod_user_header :: module_header where
  "mod_user_header = \<lparr>magic = MODULE_MAGIC, version = 1, module_version = 1,
     h_name = ''mod_user'', h_type = 7, h_priority = 0, h_flags = 0,
     code_size = 16, data_size = 0, bss_size = 0, h_entry_point = 0, h_exit_point = 0\<rparr>"

text \<open>
  Two sandbox states that agree on which slot is active for which module, and on
  whether the system is initialised.
\<close>

definition same_binding :: "sandboxing_system_state \<Rightarrow> sandboxing_system_state \<Rightarrow> bool" where
  "same_binding s s' \<longleftrightarrow> sandboxing_initialized s' = sandboxing_initialized s
     \<and> (\<forall>i. active (sandboxes s' i) = active (sandboxes s i)
            \<and> sb_module_id (sandboxes s' i) = sb_module_id (sandboxes s i))"

text \<open>
  Two registries after one load each: a module whose header carries the Core flag, and
  the plain module of \<open>mod_user_header\<close>.
\<close>

definition core_header :: module_header where
  "core_header = mod_user_header\<lparr>h_name := ''mod_core'', h_flags := MODULE_FLAG_CORE\<rparr>"

definition core_loaded :: module_system where
  "core_loaded = snd (module_load (modules_init modules_boot) (Some core_header) 588 0x100000 0)"

definition user_loaded :: module_system where
  "user_loaded = snd (module_load (modules_init modules_boot) (Some mod_user_header) 588 0x100000 0)"

text \<open>
  The charge of one module call fits: the sandbox has no limit record for
  \<^verbatim>\<open>RESOURCE_MODULE_CALLS\<close>, or the record is not enforced, or its usage plus one
  stays within the limit.
\<close>

definition module_calls_left :: "sandbox_context \<Rightarrow> bool" where
  "module_calls_left sb =
     (case find_limit (limits sb) RESOURCE_MODULE_CALLS of
        None \<Rightarrow> True
      | Some j \<Rightarrow> \<not> enforce (limits sb ! j)
                  \<or> current_usage (limits sb ! j) + 1 \<le> limit (limits sb ! j))"

text \<open>
  What \<^verbatim>\<open>sandboxing_set_resource_limit\<close> does to the limits table of the sandbox
  it has found, for a resource type below \<^verbatim>\<open>MAX_RESOURCE_LIMITS\<close>.
\<close>

definition set_limit_entry :: "resource_limit list \<Rightarrow> u8 \<Rightarrow> u32 \<Rightarrow> resource_limit list" where
  "set_limit_entry ls rt lim =
     (case find_limit ls rt of
        Some j \<Rightarrow> ls[j := (ls ! j)\<lparr>limit := lim, enforce := True\<rparr>]
      | None \<Rightarrow>
          if length ls < MAX_RESOURCE_LIMITS
          then ls @ [\<lparr>resource_type = rt, limit = lim, current_usage = 0, peak_usage = 0,
                      enforce = True\<rparr>]
          else ls)"

subsection \<open>Scheduler states and runs used below\<close>

text \<open>
  Two scheduler states with the same actor table, the same initialisation flag and the
  same mailboxes (contents, counter and capacity) in every pool slot.
\<close>

definition same_mail :: "scheduler \<Rightarrow> scheduler \<Rightarrow> bool" where
  "same_mail s s' \<longleftrightarrow>
     actors s' = actors s \<and> scheduler_initialized s' = scheduler_initialized s
     \<and> (\<forall>p. message_queue (actor_pool s' p) = message_queue (actor_pool s p)
            \<and> queue_size (actor_pool s' p) = queue_size (actor_pool s p)
            \<and> max_queue_size (actor_pool s' p) = max_queue_size (actor_pool s p))"

text \<open>
  The invariant of scheduler histories: the mailbox bound, and no actor is registered
  before \<^verbatim>\<open>scheduler_init\<close> has run.
\<close>

definition sched_inv :: "scheduler \<Rightarrow> bool" where
  "sched_inv s \<longleftrightarrow> mailbox_inv s \<and> (\<not> scheduler_initialized s \<longrightarrow> (\<forall>i. actors s i = None))"

text \<open>
  \<open>send_many n\<close>: \<open>n\<close> payload-free Async sends to actor 2, one after the other;
  \<open>full_mailbox\<close>: the two-actor scheduler after 64 of them, the capacity of actor 2.
\<close>

fun send_many :: "nat \<Rightarrow> scheduler \<Rightarrow> scheduler" where
  "send_many 0 s = s"
| "send_many (Suc n) s =
     send_many n (snd (message_send_async s 2 MSG_TYPE_ASYNC None 0 True))"

definition full_mailbox :: scheduler where
  "full_mailbox = send_many 64 two_actors"

text \<open>Every slot of the message pool from \<open>k\<close> on is free.\<close>

definition free_from :: "nat \<Rightarrow> scheduler \<Rightarrow> bool" where
  "free_from k s \<longleftrightarrow> (\<forall>i. k \<le> i \<and> i < MAX_MESSAGES \<longrightarrow> \<not> message_pool_used s i)"

text \<open>
  The same states as histories from boot: initialisation, two creations, two starts,
  then \<open>n\<close> sends to actor 2.
\<close>

definition fill_ops :: "nat \<Rightarrow> sched_op list" where
  "fill_ops n =
     [OpInit,
      OpCreate 0x1000 0 ACTOR_PRIORITY_CRITICAL 4096 0x8000,
      OpCreate 0x2000 0 ACTOR_PRIORITY_LOW 4096 0x9000,
      OpActorStart 1, OpActorStart 2]
     @ replicate n (OpSend 2 MSG_TYPE_ASYNC None 0 True)"

text \<open>The two-actor scheduler once \<^verbatim>\<open>scheduler_start\<close> has run: actor 2 is current.\<close>

definition running_two :: scheduler where
  "running_two = scheduler_start two_actors"

text \<open>
  An Async and then a System message for actor 2, which is then dispatched and
  receives twice.
\<close>

definition fifo_ops :: "sched_op list" where
  "fifo_ops =
     [OpSend 2 MSG_TYPE_ASYNC (Some [1]) 1 True,
      OpSend 2 MSG_TYPE_SYSTEM (Some [2]) 1 True,
      OpStart, OpReceive, OpReceive]"

section \<open>Properties\<close>

subsection \<open>Sandbox lookup\<close>

lemma find_sandbox_cong:
  assumes "sandboxing_initialized s' = sandboxing_initialized s"
    and "\<And>i. i < MAX_SANDBOXES \<Longrightarrow> active (sandboxes s' i) = active (sandboxes s i)"
    and "\<And>i. i < MAX_SANDBOXES \<Longrightarrow> sb_module_id (sandboxes s' i) = sb_module_id (sandboxes s i)"
  shows "sandboxing_find_sandbox_by_module s' m = sandboxing_find_sandbox_by_module s m"
proof -
  have "List.find (\<lambda>i. active (sandboxes s' i) \<and> sb_module_id (sandboxes s' i) = m) [0..<MAX_SANDBOXES]
      = List.find (\<lambda>i. active (sandboxes s i) \<and> sb_module_id (sandboxes s i) = m) [0..<MAX_SANDBOXES]"
    by (rule find_cong) (simp_all add: assms)
  then show ?thesis
    by (simp add: sandboxing_find_sandbox_by_module_def assms(1))
qed

lemma find_sandbox_SomeD:
  "sandboxing_find_sandbox_by_module s m = Some i \<Longrightarrow>
     sandboxing_initialized s \<and> i < MAX_SANDBOXES \<and> active (sandboxes s i) \<and> sb_module_id (sandboxes s i) = m"
  by (auto simp: sandboxing_find_sandbox_by_module_def find_Some_iff split: if_splits)

lemma same_binding_refl: "same_binding s s" by (simp add: same_binding_def)
lemma same_binding_trans: "same_binding s t \<Longrightarrow> same_binding t u \<Longrightarrow> same_binding s u"
  by (simp add: same_binding_def)
lemma same_binding_find:
  "same_binding s s' \<Longrightarrow> sandboxing_find_sandbox_by_module s' m = sandboxing_find_sandbox_by_module s m"
  by (rule find_sandbox_cong) (simp_all add: same_binding_def)

lemma set_resource_limit_binding: "same_binding s (snd (sandboxing_set_resource_limit s m rt lim))"
  by (simp add: sandboxing_set_resource_limit_def same_binding_def Let_def split: option.splits)

lemma set_limits_binding: "same_binding s (set_limits s m xs)"
proof (induction xs arbitrary: s)
  case Nil
  show ?case by (simp add: same_binding_refl)
next
  case (Cons x xs)
  obtain rt lim where x: "x = (rt, lim)" by (cases x)
  show ?case unfolding x set_limits.simps
    by (rule same_binding_trans [OF set_resource_limit_binding Cons.IH])
qed

lemma create_refuses_second:
  assumes "sandboxing_find_sandbox_by_module s m \<noteq> None"
  shows "fst (sandboxing_create_sandbox s m lvl) < 0 \<and> snd (sandboxing_create_sandbox s m lvl) = s"
  using assms by (simp add: sandboxing_create_sandbox_def)

lemma find_first_free_lt:
  "List.find (\<lambda>i. \<not> active (sandboxes s i)) [0..<MAX_SANDBOXES] = Some i \<Longrightarrow> i < MAX_SANDBOXES"
  by (auto simp: find_Some_iff)

lemma find_sandbox_exists:
  assumes "sandboxing_initialized s" "i < MAX_SANDBOXES" "active (sandboxes s i)" "sb_module_id (sandboxes s i) = m"
  shows "sandboxing_find_sandbox_by_module s m \<noteq> None"
  using assms by (auto simp: sandboxing_find_sandbox_by_module_def find_None_iff)

lemma create_binds:
  assumes "0 < fst (sandboxing_create_sandbox s m lvl)"
  shows "sandboxing_find_sandbox_by_module (snd (sandboxing_create_sandbox s m lvl)) m \<noteq> None"
proof -
  from assms have init: "sandboxing_initialized s"
    by (auto simp: sandboxing_create_sandbox_def split: if_splits)
  from assms obtain i where
    fr: "List.find (\<lambda>i. \<not> active (sandboxes s i)) [0..<MAX_SANDBOXES] = Some i"
    by (auto simp: sandboxing_create_sandbox_def split: if_splits option.splits)
  define s1 where "s1 = s\<lparr>sandboxes := (sandboxes s)
                        (i := (sandboxes s i)
                           \<lparr>sandbox_id := next_sandbox_id s,
                            sb_module_id := m,
                            security_level := lvl,
                            active := True,
                            capabilities := default_capabilities s lvl,
                            denied_capabilities := 0,
                            limits := []\<rparr>),
                     next_sandbox_id := next_sandbox_id s + 1\<rparr>"
  define s2 where "s2 = set_limits s1 m (level_limits lvl)"
  define s3 where "s3 = s2\<lparr>sandboxes := (sandboxes s2)
                         (i := (sandboxes s2 i)
                            \<lparr>sb_function_calls := 0,
                             memory_allocations := 0,
                             capability_checks := 0,
                             sb_violations := 0,
                             last_violation_id := 0,
                             vm_enabled := False,
                             vm_instruction_count := 0,
                             vm_instruction_limit := 1000000\<rparr>),
                       sandbox_count := sandbox_count s2 + 1\<rparr>"
  have res: "snd (sandboxing_create_sandbox s m lvl) = s3"
    using assms fr
    by (auto simp: sandboxing_create_sandbox_def Let_def s1_def s2_def s3_def split: if_splits)
  have b12: "same_binding s1 s2" unfolding s2_def by (rule set_limits_binding)
  have b23: "same_binding s2 s3" by (simp add: same_binding_def s3_def)
  have "sandboxing_find_sandbox_by_module s1 m \<noteq> None"
    by (rule find_sandbox_exists [where i = i])
       (simp_all add: s1_def init find_first_free_lt [OF fr])
  then show ?thesis
    using same_binding_find [OF b12] same_binding_find [OF b23] res by simp
qed

subsection \<open>Fail-open enforcement\<close>

lemma boot_uninitialized: "\<not> sandboxing_initialized sandbox_boot"
  by (simp add: sandbox_boot_def)

text \<open>
  Claim C10. Every enforcement entry point fails open: when the sandboxing system is
  not initialised, or the module has no sandbox, \<^verbatim>\<open>sandboxing_has_capability\<close>,
  \<^verbatim>\<open>sandboxing_check_resource_limit\<close>, \<^verbatim>\<open>sandboxing_check_memory_access\<close> and
  \<^verbatim>\<open>sandboxing_check_function_call\<close> all return true and leave the whole state,
  the violation log included, as it was.
\<close>

theorem sandbox_fail_open:
  assumes "\<not> sandboxing_initialized s \<or> sandboxing_find_sandbox_by_module s m = None"
  shows "sandboxing_has_capability s m cap = (True, s)
       \<and> sandboxing_check_resource_limit s m rt req = (True, s)
       \<and> sandboxing_check_memory_access s m addr sz w = (True, s)
       \<and> sandboxing_check_function_call s m fn = (True, s)"
  using assms
  by (auto simp: sandboxing_has_capability_def sandboxing_check_resource_limit_def
      sandboxing_check_memory_access_def sandboxing_check_function_call_def)

text \<open>The claim at the uninitialised boot state.\<close>

theorem sandbox_fail_open_witness:
  "\<not> sandboxing_initialized sandbox_boot
   \<and> sandboxing_has_capability sandbox_boot 1 CAP_FILESYSTEM_WRITE = (True, sandbox_boot)
   \<and> sandboxing_check_resource_limit sandbox_boot 1 RESOURCE_MEMORY 4096 = (True, sandbox_boot)
   \<and> sandboxing_check_memory_access sandbox_boot 1 0 0 True = (True, sandbox_boot)
   \<and> sandboxing_check_function_call sandbox_boot 1 (Some ''reboot'') = (True, sandbox_boot)"
  using sandbox_fail_open [of sandbox_boot 1 CAP_FILESYSTEM_WRITE RESOURCE_MEMORY 4096 0 0 True "Some ''reboot''"]
    boot_uninitialized
  by simp

subsection \<open>Selection of the next actor\<close>

text \<open>
  Claim C1 as stated does not hold. Actors 1 (Critical) and 2 (Low) are both Ready;
  the selection returns actor 2, of the lower class.
\<close>

theorem select_counterexample:
  "scheduler_select_next_actor two_actors = Some 2
   \<and> a_state (actor_pool two_actors 1) = ACTOR_STATE_READY
   \<and> a_priority (actor_pool two_actors 1) = ACTOR_PRIORITY_CRITICAL
   \<and> a_state (actor_pool two_actors 2) = ACTOR_STATE_READY
   \<and> a_priority (actor_pool two_actors 2) = ACTOR_PRIORITY_LOW
   \<and> ACTOR_PRIORITY_CRITICAL < ACTOR_PRIORITY_LOW"
  by code_simp

text \<open>
  Claim C1, amended. \<^verbatim>\<open>scheduler_select_next_actor\<close> returns the head of the ready
  queue, none when the queue is empty; the priorities and the
  \<^verbatim>\<open>last_scheduled\<close> ticks of the actors, the kernel actor's included, have no
  influence on the result.
\<close>

theorem select_head_of_queue:
  "scheduler_select_next_actor s = ready_queue s
   \<and> scheduler_select_next_actor
       (s\<lparr>actor_pool := (\<lambda>i. (actor_pool s i)\<lparr>a_priority := pr i, last_scheduled := ls i\<rparr>)\<rparr>)
     = scheduler_select_next_actor s"
  by (simp add: scheduler_select_next_actor_def)

subsection \<open>Loading a module and its sandbox\<close>

text \<open>
  Claim C2 as stated does not hold. After both subsystems are initialised, loading a
  valid image succeeds with module id 1 and leaves the module Loaded, and module 1 has
  no sandbox.
\<close>

theorem load_no_sandbox_counterexample:
  "fst (kernel_module_load kernel_boot (Some mod_user_header) 588 0x100000 0) = 1
   \<and> module_get (registry (snd (kernel_module_load kernel_boot (Some mod_user_header) 588 0x100000 0))) 1 = Some 0
   \<and> m_state (module_pool (registry (snd (kernel_module_load kernel_boot (Some mod_user_header) 588 0x100000 0))) 0)
       = MODULE_STATE_LOADED
   \<and> sandboxing_find_sandbox_by_module
        (sandbox (snd (kernel_module_load kernel_boot (Some mod_user_header) 588 0x100000 0))) 1 = None"
  by code_simp

text \<open>
  Claim C2, amended. \<^verbatim>\<open>module_load\<close> creates no sandbox: it leaves the sandbox
  system as it was. A sandbox is bound to a module by \<^verbatim>\<open>sandboxing_create_sandbox\<close>
  alone: a call that returns a positive sandbox id leaves the module with a sandbox,
  and a call for a module that already has one fails and changes nothing.
\<close>

theorem load_leaves_sandboxes:
  "sandbox (snd (kernel_module_load k module_data sz mem init_result)) = sandbox k
   \<and> (sandboxing_find_sandbox_by_module s m \<noteq> None \<longrightarrow>
        fst (sandboxing_create_sandbox s m lvl) < 0 \<and> snd (sandboxing_create_sandbox s m lvl) = s)
   \<and> (0 < fst (sandboxing_create_sandbox s m lvl) \<longrightarrow>
        sandboxing_find_sandbox_by_module (snd (sandboxing_create_sandbox s m lvl)) m \<noteq> None)"
  using create_refuses_second [of s m lvl] create_binds [of s m lvl]
  by (simp add: kernel_module_load_def split: prod.splits)

text \<open>Both cases of the amended claim for module 1, from the initialised kernel.\<close>

theorem load_leaves_sandboxes_witness:
  "0 < fst (sandboxing_create_sandbox (sandbox kernel_boot) 1 SANDBOX_LEVEL_USER)
   \<and> sandboxing_find_sandbox_by_module user_sandbox_state 1 \<noteq> None
   \<and> fst (sandboxing_create_sandbox user_sandbox_state 1 SANDBOX_LEVEL_TRUSTED) < 0
   \<and> snd (sandboxing_create_sandbox user_sandbox_state 1 SANDBOX_LEVEL_TRUSTED) = user_sandbox_state"
proof -
  have a: "0 < fst (sandboxing_create_sandbox (sandbox kernel_boot) 1 SANDBOX_LEVEL_USER)"
    by code_simp
  have b: "user_sandbox_state = snd (sandboxing_create_sandbox (sandbox kernel_boot) 1 SANDBOX_LEVEL_USER)"
    by (simp add: user_sandbox_state_def kernel_boot_def)
  from a load_leaves_sandboxes [of kernel_boot None 0 0 0 "sandbox kernel_boot" 1 SANDBOX_LEVEL_USER]
  have c: "sandboxing_find_sandbox_by_module user_sandbox_state 1 \<noteq> None"
    by (simp add: b)
  from c load_leaves_sandboxes [of kernel_boot None 0 0 0 user_sandbox_state 1 SANDBOX_LEVEL_TRUSTED]
  show ?thesis using a by simp
qed

subsection \<open>Unloading\<close>

text \<open>
  How each registry function can change the lifecycle state of a pool slot, for a
  property \<open>P\<close> of states.
\<close>

lemma module_start_state:
  "P (m_state (module_pool s q)) \<Longrightarrow> P MODULE_STATE_ERROR \<Longrightarrow> P MODULE_STATE_RUNNING \<Longrightarrow>
   P (m_state (module_pool (snd (module_start s mid r)) q))"
  by (simp add: module_start_def upd_module_def split: option.splits)

lemma module_stop_state:
  "P (m_state (module_pool s q)) \<Longrightarrow> P MODULE_STATE_LOADED \<Longrightarrow>
   P (m_state (module_pool (snd (module_stop s mid)) q))"
  by (simp add: module_stop_def upd_module_def split: option.splits)

lemma module_allocate_pool: "module_pool (snd (module_allocate s)) = module_pool s"
  by (simp add: module_allocate_def split: option.splits)

lemma module_load_state:
  assumes P: "P (m_state (module_pool s q))" "P MODULE_STATE_LOADING" "P MODULE_STATE_LOADED"
    "P MODULE_STATE_ERROR" "P MODULE_STATE_RUNNING"
  shows "P (m_state (module_pool (snd (module_load s d sz mem r)) q))"
proof (cases d)
  case None
  then show ?thesis by (simp add: module_load_def P)
next
  case (Some header)
  obtain a s0 where al: "module_allocate s = (a, s0)" by (cases "module_allocate s")
  have pool0: "module_pool s0 = module_pool s"
    using module_allocate_pool [of s] al by simp
  show ?thesis
  proof (cases a)
    case None
    then show ?thesis
      unfolding module_load_def Some option.case al prod.case Let_def
      by (simp add: pool0 P)
  next
    case (Some p)
    have tail: "\<And>t i. P (m_state (module_pool t q)) \<Longrightarrow>
        P (m_state (module_pool (snd (module_start t i r)) q))"
      by (simp add: module_start_state [where P = P] P)
    show ?thesis
      unfolding module_load_def \<open>d = Some header\<close> Some option.case al prod.case Let_def
      by (simp add: pool0 P module_free_def tail upd_module_def module_add_to_list_def)
  qed
qed

lemma module_unload_state:
  assumes "m_state (module_pool (snd (module_unload s mid)) q) = MODULE_STATE_UNLOADING"
    and "m_state (module_pool s q) \<noteq> MODULE_STATE_UNLOADING"
  shows "m_flags (module_pool s q) AND MODULE_FLAG_CORE = 0 \<and> dependent_count (module_pool s q) = 0"
  using assms
  by (auto simp: module_unload_def Let_def upd_module_def module_remove_from_list_def
      module_free_def word_gt_0 split: option.splits if_splits)

lemma state_consts:
  "MODULE_STATE_LOADING \<noteq> MODULE_STATE_UNLOADING" "MODULE_STATE_LOADED \<noteq> MODULE_STATE_UNLOADING"
  "MODULE_STATE_ERROR \<noteq> MODULE_STATE_UNLOADING" "MODULE_STATE_RUNNING \<noteq> MODULE_STATE_UNLOADING"
  by (simp_all add: MODULE_STATE_UNLOADING_def MODULE_STATE_LOADING_def MODULE_STATE_LOADED_def
      MODULE_STATE_ERROR_def MODULE_STATE_RUNNING_def)

text \<open>
  Claim C9. \<^verbatim>\<open>module_unload\<close> refuses a module that carries the Core flag or has
  dependents: it returns false and leaves the registry (the module's state, its memory
  accounting and the module list) as it was. Consequently no call of the registry takes
  a pool slot into the Unloading state unless the module in it was free of the Core
  flag and of dependents.
\<close>

theorem unload_refuses:
  "(module_get s mid = Some p
      \<and> (m_flags (module_pool s p) AND MODULE_FLAG_CORE \<noteq> 0 \<or> dependent_count (module_pool s p) > 0)
      \<longrightarrow> module_unload s mid = (False, s))
   \<and> (m_state (module_pool (module_exec s op) q) = MODULE_STATE_UNLOADING
      \<and> m_state (module_pool s q) \<noteq> MODULE_STATE_UNLOADING
      \<longrightarrow> m_flags (module_pool s q) AND MODULE_FLAG_CORE = 0 \<and> dependent_count (module_pool s q) = 0)"
proof (rule conjI; rule impI)
  assume "module_get s mid = Some p
      \<and> (m_flags (module_pool s p) AND MODULE_FLAG_CORE \<noteq> 0 \<or> dependent_count (module_pool s p) > 0)"
  then show "module_unload s mid = (False, s)"
    by (auto simp: module_unload_def)
next
  assume a: "m_state (module_pool (module_exec s op) q) = MODULE_STATE_UNLOADING
      \<and> m_state (module_pool s q) \<noteq> MODULE_STATE_UNLOADING"
  let ?P = "\<lambda>x. x \<noteq> MODULE_STATE_UNLOADING"
  show "m_flags (module_pool s q) AND MODULE_FLAG_CORE = 0 \<and> dependent_count (module_pool s q) = 0"
  proof (cases op)
    case MInit
    then show ?thesis using a by (simp add: modules_init_def)
  next
    case (MLoad d sz mem r)
    have "?P (m_state (module_pool (snd (module_load s d sz mem r)) q))"
      by (rule module_load_state) (use a state_consts in simp_all)
    then show ?thesis using a MLoad by simp
  next
    case (MUnload m)
    then show ?thesis using a module_unload_state [of s m q] by simp
  next
    case (MStart m r)
    have "?P (m_state (module_pool (snd (module_start s m r)) q))"
      by (rule module_start_state) (use a state_consts in simp_all)
    then show ?thesis using a MStart by simp
  next
    case (MStop m)
    have "?P (m_state (module_pool (snd (module_stop s m)) q))"
      by (rule module_stop_state) (use a state_consts in simp_all)
    then show ?thesis using a MStop by simp
  qed
qed

text \<open>
  The refusal for a loaded Core module, and the one way into Unloading for a plain one.
\<close>

theorem unload_refuses_witness:
  "module_get core_loaded 1 = Some 0
   \<and> m_flags (module_pool core_loaded 0) AND MODULE_FLAG_CORE \<noteq> 0
   \<and> module_unload core_loaded 1 = (False, core_loaded)
   \<and> m_state (module_pool (module_exec user_loaded (MUnload 1)) 0) = MODULE_STATE_UNLOADING
   \<and> m_state (module_pool user_loaded 0) \<noteq> MODULE_STATE_UNLOADING
   \<and> m_flags (module_pool user_loaded 0) AND MODULE_FLAG_CORE = 0
   \<and> dependent_count (module_pool user_loaded 0) = 0"
proof -
  have a: "module_get core_loaded 1 = Some 0" by code_simp
  have b: "m_flags (module_pool core_loaded 0) AND MODULE_FLAG_CORE \<noteq> 0" by code_simp
  have c: "m_state (module_pool (module_exec user_loaded (MUnload 1)) 0) = MODULE_STATE_UNLOADING"
    by code_simp
  have d: "m_state (module_pool user_loaded 0) \<noteq> MODULE_STATE_UNLOADING" by code_simp
  show ?thesis
    using a b c d unload_refuses [where s = core_loaded and mid = 1 and p = 0]
      unload_refuses [where s = user_loaded and op = "MUnload 1" and q = 0]
    by simp
qed

subsection \<open>Function-call checks\<close>

lemma find_limit_SomeD:
  "find_limit ls rt = Some j \<Longrightarrow> j < length ls \<and> resource_type (ls ! j) = rt"
proof (induction ls arbitrary: j)
  case Nil
  then show ?case by simp
next
  case (Cons l ls)
  then show ?case by (auto split: if_splits)
qed

lemma find_limit_types:
  "map resource_type ls = map resource_type ls' \<Longrightarrow> find_limit ls rt = find_limit ls' rt"
proof (induction ls arbitrary: ls')
  case Nil
  then show ?case by simp
next
  case (Cons l ls)
  then obtain l' ls'' where "ls' = l' # ls''" by (cases ls') auto
  with Cons show ?case by auto
qed

lemma find_limit_update:
  assumes "find_limit ls rt = Some j" "resource_type l' = rt"
  shows "find_limit (ls[j := l']) rt' = find_limit ls rt'"
proof (rule find_limit_types)
  from find_limit_SomeD [OF assms(1)] assms(2)
  show "map resource_type (ls[j := l']) = map resource_type ls"
    by (simp add: map_update list_update_same_conv)
qed

lemma fs_write_not_restricted: "\<not> list_ex (name_match ''fs_write'') restricted_funcs"
  by (simp add: restricted_funcs_def)

lemma find_sandbox_upd:
  "active X = active (sandboxes s i) \<Longrightarrow> sb_module_id X = sb_module_id (sandboxes s i) \<Longrightarrow>
   sandboxing_find_sandbox_by_module (s\<lparr>sandboxes := (sandboxes s)(i := X)\<rparr>) m
     = sandboxing_find_sandbox_by_module s m"
  by (rule find_sandbox_cong) simp_all

text \<open>
  Claim C3 as stated does not hold. Module 1 is sandboxed at level User and lacks
  \<^verbatim>\<open>CAP_FILESYSTEM_WRITE\<close>; \<^verbatim>\<open>sandboxing_check_function_call\<close> for
  \<^verbatim>\<open>fs_write\<close> returns true and the violation log gains no entry.
\<close>

theorem function_call_counterexample:
  "sandboxing_find_sandbox_by_module user_sandbox_state 1 = Some 0
   \<and> security_level (sandboxes user_sandbox_state 0) = SANDBOX_LEVEL_USER
   \<and> capabilities (sandboxes user_sandbox_state 0) AND CAP_FILESYSTEM_WRITE = 0
   \<and> fst (sandboxing_check_function_call user_sandbox_state 1 (Some ''fs_write'')) = True
   \<and> total_violations (snd (sandboxing_check_function_call user_sandbox_state 1 (Some ''fs_write'')))
       = total_violations user_sandbox_state
   \<and> violation_count (snd (sandboxing_check_function_call user_sandbox_state 1 (Some ''fs_write'')))
       = violation_count user_sandbox_state"
  by code_simp

text \<open>
  Claim C3, amended. \<^verbatim>\<open>sandboxing_check_function_call\<close> consults no capability.
  For a sandboxed module, whatever its level and capability masks, the call for
  \<^verbatim>\<open>fs_write\<close> is permitted (returns true) as long as the charge of one module call
  fits, and it appends nothing to the violation log. The function has no access to
  module records, so the module's lifecycle state stays as it was.
\<close>

theorem function_call_ignores_capabilities:
  assumes f: "sandboxing_find_sandbox_by_module s m = Some i"
    and c: "module_calls_left (sandboxes s i)"
  shows "fst (sandboxing_check_function_call s m (Some ''fs_write''))
       \<and> violations (snd (sandboxing_check_function_call s m (Some ''fs_write''))) = violations s
       \<and> violation_count (snd (sandboxing_check_function_call s m (Some ''fs_write''))) = violation_count s
       \<and> next_violation_id (snd (sandboxing_check_function_call s m (Some ''fs_write''))) = next_violation_id s
       \<and> total_violations (snd (sandboxing_check_function_call s m (Some ''fs_write''))) = total_violations s"
proof -
  have init: "sandboxing_initialized s"
    using find_sandbox_SomeD [OF f] by simp
  show ?thesis
  proof (cases "find_limit (limits (sandboxes s i)) RESOURCE_MODULE_CALLS")
    case None
    then show ?thesis
      using f init fs_write_not_restricted
      by (simp add: sandboxing_check_function_call_def sandboxing_update_resource_usage_def
          sandboxing_check_resource_limit_def find_sandbox_upd Let_def)
  next
    case (Some j)
    note fl = find_limit_SomeD [OF Some]
    have one: "\<not> sint (1 :: u32) < 0" by simp
    from c Some have c': "\<not> enforce (limits (sandboxes s i) ! j)
        \<or> current_usage (limits (sandboxes s i) ! j) + 1 \<le> limit (limits (sandboxes s i) ! j)"
      by (simp add: module_calls_left_def)
    show ?thesis
      using f init fs_write_not_restricted Some fl c' one
      by (auto simp add: sandboxing_check_function_call_def sandboxing_update_resource_usage_def
          sandboxing_check_resource_limit_def find_sandbox_upd Let_def find_limit_update
          dest: leD)
  qed
qed

text \<open>The amended claim for the User-level sandbox of module 1.\<close>

theorem function_call_ignores_capabilities_witness:
  "sandboxing_find_sandbox_by_module user_sandbox_state 1 = Some 0
   \<and> module_calls_left (sandboxes user_sandbox_state 0)
   \<and> capabilities (sandboxes user_sandbox_state 0) AND CAP_FILESYSTEM_WRITE = 0
   \<and> fst (sandboxing_check_function_call user_sandbox_state 1 (Some ''fs_write''))
   \<and> violation_count (snd (sandboxing_check_function_call user_sandbox_state 1 (Some ''fs_write''))) = 0"
proof -
  have a: "sandboxing_find_sandbox_by_module user_sandbox_state 1 = Some 0" by code_simp
  have b: "module_calls_left (sandboxes user_sandbox_state 0)" by code_simp
  have c: "capabilities (sandboxes user_sandbox_state 0) AND CAP_FILESYSTEM_WRITE = 0" by code_simp
  have d: "violation_count user_sandbox_state = 0" by code_simp
  show ?thesis
    using a b c d function_call_ignores_capabilities [OF a b] by simp
qed


subsection \<open>Quarantine escalation\<close>

lemma set_resource_limit_found:
  assumes "sandboxing_find_sandbox_by_module s m = Some i" "unat rt < MAX_RESOURCE_LIMITS"
  shows "snd (sandboxing_set_resource_limit s m rt lim)
       = s\<lparr>sandboxes := (sandboxes s)
             (i := (sandboxes s i)\<lparr>limits := set_limit_entry (limits (sandboxes s i)) rt lim\<rparr>)\<rparr>"
  using assms find_sandbox_SomeD [OF assms(1)]
  by (simp add: sandboxing_set_resource_limit_def set_limit_entry_def Let_def not_le
      split: option.splits)

lemma find_limit_None_iff: "find_limit ls rt = None \<longleftrightarrow> rt \<notin> resource_type ` set ls"
  by (induction ls) auto

lemma find_limit_append:
  "find_limit (ls @ [l]) rt =
     (case find_limit ls rt of Some j \<Rightarrow> Some j
      | None \<Rightarrow> if resource_type l = rt then Some (length ls) else None)"
  by (induction ls) (auto split: option.splits)

lemma small_types_card: "card {x :: u8. unat x < MAX_RESOURCE_LIMITS} \<le> 16"
proof -
  have "{x :: u8. unat x < MAX_RESOURCE_LIMITS} \<subseteq> of_nat ` {..< (16 :: nat)}"
  proof
    fix x :: u8
    assume "x \<in> {x. unat x < MAX_RESOURCE_LIMITS}"
    then have "unat x \<in> {..< (16 :: nat)}" by (simp add: MAX_RESOURCE_LIMITS_def)
    moreover have "x = of_nat (unat x)" by simp
    ultimately show "x \<in> of_nat ` {..< (16 :: nat)}" by (rule rev_image_eqI)
  qed
  then have "card {x :: u8. unat x < MAX_RESOURCE_LIMITS} \<le> card ((of_nat :: nat \<Rightarrow> u8) ` {..< (16 :: nat)})"
    by (intro card_mono) simp_all
  also have "\<dots> \<le> card {..< (16 :: nat)}" by (rule card_image_le) simp
  finally show ?thesis by simp
qed

lemma limits_wf_room:
  assumes wf: "limits_wf ls" and rt: "unat rt < MAX_RESOURCE_LIMITS"
  shows "find_limit ls rt \<noteq> None \<or> length ls < MAX_RESOURCE_LIMITS"
proof (rule ccontr)
  assume "\<not> (find_limit ls rt \<noteq> None \<or> length ls < MAX_RESOURCE_LIMITS)"
  then have none: "rt \<notin> resource_type ` set ls" and len: "16 \<le> length ls"
    by (simp_all add: find_limit_None_iff MAX_RESOURCE_LIMITS_def)
  let ?T = "resource_type ` set ls"
  from wf have d: "distinct (map resource_type ls)"
    and sub: "?T \<subseteq> {x. unat x < MAX_RESOURCE_LIMITS}"
    by (auto simp: limits_wf_def list_all_iff)
  from d have "card ?T = length ls"
    using distinct_card [of "map resource_type ls"] by simp
  moreover from sub none rt have "insert rt ?T \<subseteq> {x. unat x < MAX_RESOURCE_LIMITS}" by simp
  then have "card (insert rt ?T) \<le> card {x :: u8. unat x < MAX_RESOURCE_LIMITS}"
    by (intro card_mono) simp_all
  moreover from none have "card (insert rt ?T) = Suc (card ?T)" by simp
  ultimately show False using small_types_card len by simp
qed

lemma set_limit_entry_same:
  assumes "limits_wf ls" "unat rt < MAX_RESOURCE_LIMITS"
  shows "case find_limit (set_limit_entry ls rt lim) rt of
           None \<Rightarrow> False
         | Some j \<Rightarrow> limit (set_limit_entry ls rt lim ! j) = lim \<and> enforce (set_limit_entry ls rt lim ! j)"
proof (cases "find_limit ls rt")
  case None
  with limits_wf_room [OF assms] have "length ls < MAX_RESOURCE_LIMITS" by simp
  with None show ?thesis
    by (simp add: set_limit_entry_def find_limit_append)
next
  case (Some j)
  from find_limit_SomeD [OF Some] Some show ?thesis
    by (simp add: set_limit_entry_def find_limit_update)
qed

lemma set_limit_entry_other:
  assumes "rt' \<noteq> rt"
    and "case find_limit ls rt of None \<Rightarrow> False | Some j \<Rightarrow> limit (ls ! j) = lim \<and> enforce (ls ! j)"
  shows "case find_limit (set_limit_entry ls rt' lim') rt of
           None \<Rightarrow> False
         | Some j \<Rightarrow> limit (set_limit_entry ls rt' lim' ! j) = lim \<and> enforce (set_limit_entry ls rt' lim' ! j)"
proof -
  from assms(2) obtain j where j: "find_limit ls rt = Some j" "limit (ls ! j) = lim" "enforce (ls ! j)"
    by (auto split: option.splits)
  note jd = find_limit_SomeD [OF j(1)]
  show ?thesis
  proof (cases "find_limit ls rt'")
    case None
    with j jd show ?thesis
      by (simp add: set_limit_entry_def find_limit_append nth_append)
  next
    case (Some k)
    note kd = find_limit_SomeD [OF Some]
    from kd jd assms(1) have "k \<noteq> j" by auto
    with j jd Some kd show ?thesis
      by (simp add: set_limit_entry_def find_limit_update)
  qed
qed

lemma set_limit_entry_wf:
  assumes "limits_wf ls" "unat rt < MAX_RESOURCE_LIMITS"
  shows "limits_wf (set_limit_entry ls rt lim)"
proof (cases "find_limit ls rt")
  case None
  then have "rt \<notin> resource_type ` set ls" by (simp add: find_limit_None_iff)
  with assms show ?thesis
    by (auto simp: set_limit_entry_def None limits_wf_def)
next
  case (Some j)
  from find_limit_SomeD [OF Some] have "map resource_type (ls[j := (ls ! j)\<lparr>limit := lim, enforce := True\<rparr>])
      = map resource_type ls"
    by (simp add: map_update list_update_same_conv)
  moreover have "list_all (\<lambda>l. unat (resource_type l) < MAX_RESOURCE_LIMITS)
      (ls[j := (ls ! j)\<lparr>limit := lim, enforce := True\<rparr>])"
    using assms(1) find_limit_SomeD [OF Some]
    by (auto simp: limits_wf_def list_all_iff dest!: set_update_subset_insert [THEN subsetD])
  ultimately show ?thesis using assms(1) Some
    by (simp add: set_limit_entry_def limits_wf_def)
qed

lemma resource_consts:
  "unat RESOURCE_MEMORY < MAX_RESOURCE_LIMITS" "unat RESOURCE_CHILD_ACTORS < MAX_RESOURCE_LIMITS"
  "unat RESOURCE_HEAP_ALLOCS < MAX_RESOURCE_LIMITS" "unat RESOURCE_MODULE_CALLS < MAX_RESOURCE_LIMITS"
  "RESOURCE_CHILD_ACTORS \<noteq> RESOURCE_MEMORY" "RESOURCE_HEAP_ALLOCS \<noteq> RESOURCE_MEMORY"
  "RESOURCE_MODULE_CALLS \<noteq> RESOURCE_MEMORY"
  by (simp_all add: RESOURCE_MEMORY_def RESOURCE_CHILD_ACTORS_def RESOURCE_HEAP_ALLOCS_def
      RESOURCE_MODULE_CALLS_def MAX_RESOURCE_LIMITS_def)

lemma quarantine_effect:
  assumes f: "sandboxing_find_sandbox_by_module s m = Some i"
    and wf: "limits_wf (limits (sandboxes s i))"
  shows "\<exists>ls. snd (sandboxing_quarantine_module s m)
         = s\<lparr>sandboxes := (sandboxes s)
               (i := (sandboxes s i)\<lparr>security_level := SANDBOX_LEVEL_QUARANTINE,
                        capabilities := default_capabilities s SANDBOX_LEVEL_QUARANTINE,
                        limits := ls\<rparr>),
             quarantined_modules := quarantined_modules s + 1\<rparr>
       \<and> (case find_limit ls RESOURCE_MEMORY of
             None \<Rightarrow> False
           | Some j \<Rightarrow> limit (ls ! j) = 256 * 1024 \<and> enforce (ls ! j))"
proof -
  let ?l0 = "limits (sandboxes s i)"
  let ?l1 = "set_limit_entry ?l0 RESOURCE_MEMORY (256 * 1024)"
  let ?l2 = "set_limit_entry ?l1 RESOURCE_CHILD_ACTORS 0"
  let ?l3 = "set_limit_entry ?l2 RESOURCE_HEAP_ALLOCS 1"
  let ?l4 = "set_limit_entry ?l3 RESOURCE_MODULE_CALLS 10"
  have init: "sandboxing_initialized s" using find_sandbox_SomeD [OF f] by simp
  have m1: "case find_limit ?l1 RESOURCE_MEMORY of None \<Rightarrow> False
            | Some j \<Rightarrow> limit (?l1 ! j) = 256 * 1024 \<and> enforce (?l1 ! j)"
    by (rule set_limit_entry_same [OF wf resource_consts(1)])
  have m2: "case find_limit ?l2 RESOURCE_MEMORY of None \<Rightarrow> False
            | Some j \<Rightarrow> limit (?l2 ! j) = 256 * 1024 \<and> enforce (?l2 ! j)"
    by (rule set_limit_entry_other [OF resource_consts(5) m1])
  have m3: "case find_limit ?l3 RESOURCE_MEMORY of None \<Rightarrow> False
            | Some j \<Rightarrow> limit (?l3 ! j) = 256 * 1024 \<and> enforce (?l3 ! j)"
    by (rule set_limit_entry_other [OF resource_consts(6) m2])
  have m4: "case find_limit ?l4 RESOURCE_MEMORY of None \<Rightarrow> False
            | Some j \<Rightarrow> limit (?l4 ! j) = 256 * 1024 \<and> enforce (?l4 ! j)"
    by (rule set_limit_entry_other [OF resource_consts(7) m3])
  have "snd (sandboxing_quarantine_module s m)
         = s\<lparr>sandboxes := (sandboxes s)
               (i := (sandboxes s i)\<lparr>security_level := SANDBOX_LEVEL_QUARANTINE,
                        capabilities := default_capabilities s SANDBOX_LEVEL_QUARANTINE,
                        limits := ?l4\<rparr>),
             quarantined_modules := quarantined_modules s + 1\<rparr>"
    using f init
    by (simp add: sandboxing_quarantine_module_def Let_def set_resource_limit_found
        find_sandbox_upd resource_consts)
  with m4 show ?thesis by blast
qed

lemma set_resource_limit_wf:
  assumes "\<And>i. limits_wf (limits (sandboxes s i))"
  shows "limits_wf (limits (sandboxes (snd (sandboxing_set_resource_limit s m rt lim)) k))"
proof (cases "sandboxing_find_sandbox_by_module s m")
  case None
  then show ?thesis using assms by (simp add: sandboxing_set_resource_limit_def)
next
  case (Some i)
  show ?thesis
  proof (cases "unat rt < MAX_RESOURCE_LIMITS")
    case True
    show ?thesis
      using assms set_limit_entry_wf [OF assms True, of i lim]
      by (simp add: set_resource_limit_found [OF Some True])
  next
    case False
    then show ?thesis using assms Some by (simp add: sandboxing_set_resource_limit_def)
  qed
qed

text \<open>
  Claim C4. With strict enforcement on, the handled capability violation that takes a
  sandbox's violation counter from 5 to 6 quarantines the module: its security level
  becomes Quarantine, its granted capability mask becomes \<^verbatim>\<open>CAP_MODULE_QUERY\<close>
  alone, its Memory limit record is enforced with a limit of at most 512 KiB, and the
  count of quarantined modules goes up by one. The policy and well-formedness
  hypotheses hold in every state that \<^verbatim>\<open>sandboxing_init\<close> and the functions
  modelled here produce.
\<close>

theorem sixth_violation_quarantines:
  assumes f: "sandboxing_find_sandbox_by_module s m = Some i"
    and strict: "strict_enforcement s"
    and five: "sb_violations (sandboxes s i) = 5"
    and policy: "default_capabilities s SANDBOX_LEVEL_QUARANTINE = CAP_MODULE_QUERY"
    and wf: "limits_wf (limits (sandboxes s i))"
  shows "security_level (sandboxes (snd (sandboxing_handle_violation s m VIOLATION_CAPABILITY d)) i)
           = SANDBOX_LEVEL_QUARANTINE
       \<and> capabilities (sandboxes (snd (sandboxing_handle_violation s m VIOLATION_CAPABILITY d)) i)
           = CAP_MODULE_QUERY
       \<and> (case find_limit (limits (sandboxes (snd (sandboxing_handle_violation s m VIOLATION_CAPABILITY d)) i))
                 RESOURCE_MEMORY of
            None \<Rightarrow> False
          | Some j \<Rightarrow>
              limit (limits (sandboxes (snd (sandboxing_handle_violation s m VIOLATION_CAPABILITY d)) i) ! j)
                \<le> 512 * 1024
              \<and> enforce (limits (sandboxes (snd (sandboxing_handle_violation s m VIOLATION_CAPABILITY d)) i) ! j))
       \<and> quarantined_modules (snd (sandboxing_handle_violation s m VIOLATION_CAPABILITY d))
           = quarantined_modules s + 1"
proof -
  have init: "sandboxing_initialized s" using find_sandbox_SomeD [OF f] by simp
  define s1 where "s1 = s\<lparr>sandboxes := (sandboxes s)
      (i := (sandboxes s i)\<lparr>sb_violations := sb_violations (sandboxes s i) + 1\<rparr>)\<rparr>"
  define s2 where "s2 = sandboxing_log_violation s1 m VIOLATION_CAPABILITY 0 d"
  have sb2: "sandboxes s2 = sandboxes s1" "strict_enforcement s2 = strict_enforcement s1"
    "default_capabilities s2 = default_capabilities s1" "quarantined_modules s2 = quarantined_modules s1"
    "sandboxing_initialized s2 = sandboxing_initialized s1"
    by (simp_all add: s2_def sandboxing_log_violation_def Let_def)
  have f1: "sandboxing_find_sandbox_by_module s1 m = Some i"
    unfolding s1_def using f by (simp add: find_sandbox_upd)
  have f2: "sandboxing_find_sandbox_by_module s2 m = Some i"
    using f1 find_sandbox_cong [of s2 s1 m] sb2 by simp
  have six: "sb_violations (sandboxes s2 i) > 5"
    using five by (simp add: sb2 s1_def)
  have wf2: "limits_wf (limits (sandboxes s2 i))"
    using wf by (simp add: sb2 s1_def)
  have "sandboxing_handle_violation s m VIOLATION_CAPABILITY d
          = (if strict_enforcement s2 \<and> sb_violations (sandboxes s2 i) > 5
             then (0, snd (sandboxing_quarantine_module s2 m)) else (0, s2))"
    using init f by (simp add: sandboxing_handle_violation_def Let_def s1_def s2_def)
  with strict six have hv: "snd (sandboxing_handle_violation s m VIOLATION_CAPABILITY d)
          = snd (sandboxing_quarantine_module s2 m)"
    by (simp add: sb2 s1_def)
  from quarantine_effect [OF f2 wf2] obtain ls where
    q: "snd (sandboxing_quarantine_module s2 m)
         = s2\<lparr>sandboxes := (sandboxes s2)
               (i := (sandboxes s2 i)\<lparr>security_level := SANDBOX_LEVEL_QUARANTINE,
                        capabilities := default_capabilities s2 SANDBOX_LEVEL_QUARANTINE,
                        limits := ls\<rparr>),
             quarantined_modules := quarantined_modules s2 + 1\<rparr>"
    and ml: "case find_limit ls RESOURCE_MEMORY of
             None \<Rightarrow> False
           | Some j \<Rightarrow> limit (ls ! j) = 256 * 1024 \<and> enforce (ls ! j)"
    by blast
  have le: "(256 * 1024 :: u32) \<le> 512 * 1024" by simp
  from ml le show ?thesis
    unfolding hv q
    by (auto simp: sb2 s1_def policy split: option.splits)
qed


text \<open>
  Scenario S5: a User-level sandbox for module 1, five handled capability violations,
  then the sixth.
\<close>

theorem sixth_violation_quarantines_witness:
  "sandboxing_find_sandbox_by_module
     (violate_once (violate_once (violate_once (violate_once (violate_once user_sandbox_state))))) 1 = Some 0
   \<and> security_level (sandboxes
       (violate_once (violate_once (violate_once (violate_once (violate_once user_sandbox_state))))) 0)
       = SANDBOX_LEVEL_USER
   \<and> quarantined_modules
       (violate_once (violate_once (violate_once (violate_once (violate_once user_sandbox_state))))) = 0
   \<and> security_level (sandboxes (violate_once
       (violate_once (violate_once (violate_once (violate_once (violate_once user_sandbox_state)))))) 0)
       = SANDBOX_LEVEL_QUARANTINE
   \<and> capabilities (sandboxes (violate_once
       (violate_once (violate_once (violate_once (violate_once (violate_once user_sandbox_state)))))) 0)
       = CAP_MODULE_QUERY
   \<and> quarantined_modules (violate_once
       (violate_once (violate_once (violate_once (violate_once (violate_once user_sandbox_state)))))) = 1"
proof -
  define s5 where
    "s5 = violate_once (violate_once (violate_once (violate_once (violate_once user_sandbox_state))))"
  have f: "sandboxing_find_sandbox_by_module s5 1 = Some 0" unfolding s5_def by code_simp
  have strict: "strict_enforcement s5" unfolding s5_def by code_simp
  have five: "sb_violations (sandboxes s5 0) = 5" unfolding s5_def by code_simp
  have policy: "default_capabilities s5 SANDBOX_LEVEL_QUARANTINE = CAP_MODULE_QUERY"
    unfolding s5_def by code_simp
  have wf: "limits_wf (limits (sandboxes s5 0))" unfolding s5_def by code_simp
  have lvl: "security_level (sandboxes s5 0) = SANDBOX_LEVEL_USER" unfolding s5_def by code_simp
  have q0: "quarantined_modules s5 = 0" unfolding s5_def by code_simp
  from sixth_violation_quarantines [OF f strict five policy wf, of "Some ''capability violation''"]
  show ?thesis
    using f lvl q0 by (simp add: violate_once_def [symmetric] s5_def [symmetric])
qed


subsection \<open>Scheduler: what leaves the mailboxes alone\<close>

lemma same_mail_refl [simp]: "same_mail s s"
  by (simp add: same_mail_def)

lemma same_mail_trans: "same_mail s t \<Longrightarrow> same_mail t u \<Longrightarrow> same_mail s u"
  by (simp add: same_mail_def)

lemma actor_pool_upd [simp]:
  "actor_pool (upd_actor p f s) q = (if q = p then f (actor_pool s p) else actor_pool s q)"
  by (simp add: upd_actor_def)

lemma upd_actor_fields [simp]:
  "actors (upd_actor p f s) = actors s"
  "ready_queue (upd_actor p f s) = ready_queue s"
  "current_actor (upd_actor p f s) = current_actor s"
  "scheduler_enabled (upd_actor p f s) = scheduler_enabled s"
  "scheduler_initialized (upd_actor p f s) = scheduler_initialized s"
  "statistics (upd_actor p f s) = statistics s"
  "tick_count (upd_actor p f s) = tick_count s"
  "current_timeslice (upd_actor p f s) = current_timeslice s"
  "sched_ai_supervision (upd_actor p f s) = sched_ai_supervision s"
  "message_pool_used (upd_actor p f s) = message_pool_used s"
  "actor_pool_used (upd_actor p f s) = actor_pool_used s"
  by (simp_all add: upd_actor_def)

lemma same_mail_upd:
  assumes "message_queue (f (actor_pool s p)) = message_queue (actor_pool s p)"
    and "queue_size (f (actor_pool s p)) = queue_size (actor_pool s p)"
    and "max_queue_size (f (actor_pool s p)) = max_queue_size (actor_pool s p)"
  shows "same_mail s (upd_actor p f s)"
  using assms by (simp add: same_mail_def)

lemma same_mail_add: "same_mail s (scheduler_add_to_ready_queue s x)"
  by (simp add: scheduler_add_to_ready_queue_def same_mail_def Let_def split: option.splits)

lemma same_mail_remove: "same_mail s (scheduler_remove_from_ready_queue s x)"
  by (simp add: scheduler_remove_from_ready_queue_def same_mail_def Let_def split: option.splits)

lemma same_mailD:
  assumes "same_mail s s'"
  shows "actors s' = actors s" "scheduler_initialized s' = scheduler_initialized s"
    "message_queue (actor_pool s' p) = message_queue (actor_pool s p)"
    "queue_size (actor_pool s' p) = queue_size (actor_pool s p)"
    "max_queue_size (actor_pool s' p) = max_queue_size (actor_pool s p)"
  using assms by (simp_all add: same_mail_def)

lemmas mail_add [simp] = same_mailD [OF same_mail_add]
lemmas mail_remove [simp] = same_mailD [OF same_mail_remove]

lemma same_mail_switch: "same_mail s (scheduler_context_switch s x)"
  by (simp add: scheduler_context_switch_def Let_def same_mail_def split: option.splits)

lemmas mail_switch [simp] = same_mailD [OF same_mail_switch]

lemma same_mail_schedule: "same_mail s (scheduler_schedule s)"
  by (simp add: scheduler_schedule_def Let_def same_mail_def)

lemmas mail_schedule [simp] = same_mailD [OF same_mail_schedule]

lemma same_mail_yield: "same_mail s (scheduler_yield s)"
  by (simp add: scheduler_yield_def Let_def same_mail_def split: option.splits)

lemmas mail_yield [simp] = same_mailD [OF same_mail_yield]

lemma same_mail_start: "same_mail s (scheduler_start s)"
  by (simp add: scheduler_start_def same_mail_def)

lemma same_mail_fold:
  assumes "\<And>x t. same_mail t (f x t)"
  shows "same_mail s (fold f xs s)"
proof (induction xs arbitrary: s)
  case Nil
  show ?case by simp
next
  case (Cons x xs)
  show ?case using same_mail_trans [OF assms Cons.IH] by simp
qed

lemma same_mail_analyze: "same_mail s (scheduler_ai_analyze_actors s)"
proof (cases "sched_ai_supervision s")
  case False
  then show ?thesis by (simp add: scheduler_ai_analyze_actors_def)
next
  case True
  have "same_mail s (fold (\<lambda>i t.
             case actors t i of
               None \<Rightarrow> t
             | Some p \<Rightarrow>
                 let a = actor_pool t p in
                 if a_ai_monitored a \<and> a_messages_sent a > 0 \<and> a_messages_received a > 0
                    \<and> a_behavior_score a < 100
                 then upd_actor p (\<lambda>a. a\<lparr>a_behavior_score := a_behavior_score a + 1\<rparr>) t
                 else t)
           [0 ..< MAX_ACTORS] s)"
    by (rule same_mail_fold) (simp add: same_mail_def Let_def split: option.splits)
  with True show ?thesis by (simp add: scheduler_ai_analyze_actors_def)
qed

lemmas mail_analyze [simp] = same_mailD [OF same_mail_analyze]

lemma same_mail_timer: "same_mail s (scheduler_timer_handler s)"
  by (simp add: scheduler_timer_handler_def Let_def same_mail_def split: option.splits)

lemma same_mail_actor_start: "same_mail s (snd (actor_start s aid))"
  by (simp add: actor_start_def same_mail_def split: option.splits)

lemma same_mail_free: "same_mail s (message_free s m)"
  by (simp add: message_free_def same_mail_def split: option.splits)

lemmas mail_free [simp] = same_mailD [OF same_mail_free]

lemma same_mail_allocate: "same_mail s (snd (message_allocate s))"
  by (simp add: message_allocate_def same_mail_def split: option.splits)

lemma mailbox_inv_same: "same_mail s s' \<Longrightarrow> mailbox_inv s \<Longrightarrow> mailbox_inv s'"
  by (simp add: mailbox_inv_def mbox_ok_def same_mail_def)


subsection \<open>Scheduler: sending\<close>

lemma add_message_full:
  "queue_size (actor_pool s r) \<ge> max_queue_size (actor_pool s r) \<Longrightarrow>
   actor_add_message s (Some r) (Some m) = (False, s)"
  by (simp add: actor_add_message_def)

lemma add_message_room:
  "queue_size (actor_pool s r) < max_queue_size (actor_pool s r) \<Longrightarrow>
   actor_add_message s (Some r) (Some m)
     = (True, upd_actor r (\<lambda>a. a\<lparr>message_queue := message_queue a @ [m],
                                  queue_size := queue_size a + 1\<rparr>) s)"
  by (simp add: actor_add_message_def not_le [symmetric])

lemma allocate_cases:
  obtains "message_allocate s = (None, s)"
  | i where "message_allocate s = (Some i, s\<lparr>message_pool_used := (message_pool_used s)(i := True)\<rparr>)"
proof (cases "List.find (\<lambda>i. \<not> message_pool_used s i) [0 ..< MAX_MESSAGES]")
  case None
  then have "message_allocate s = (None, s)" by (simp add: message_allocate_def)
  then show ?thesis by (rule that(1))
next
  case (Some i)
  then have "message_allocate s = (Some i, s\<lparr>message_pool_used := (message_pool_used s)(i := True)\<rparr>)"
    by (simp add: message_allocate_def)
  then show ?thesis by (rule that(2))
qed

lemma send_full:
  assumes "actor_get s rid = Some r"
    and "queue_size (actor_pool s r) \<ge> max_queue_size (actor_pool s r)"
  shows "\<not> fst (message_send_async s rid ty data psize alloc_ok)"
proof (cases s rule: allocate_cases)
  case 1
  then show ?thesis using assms by (simp add: message_send_async_def)
next
  case (2 i)
  then show ?thesis using assms
    by (simp add: message_send_async_def Let_def add_message_full)
qed

lemma send_fail_frame:
  assumes "\<not> fst (message_send_async s rid ty data psize alloc_ok)"
  shows "same_mail s (snd (message_send_async s rid ty data psize alloc_ok))"
proof (cases s rule: allocate_cases)
  case 1
  then show ?thesis by (simp add: message_send_async_def split: option.splits)
next
  case (2 i)
  show ?thesis
  proof (cases "actor_get s rid")
    case None
    then show ?thesis by (simp add: message_send_async_def)
  next
    case (Some r)
    show ?thesis
    proof (cases "queue_size (actor_pool s r) \<ge> max_queue_size (actor_pool s r)")
      case True
      then show ?thesis using 2 Some
        by (simp add: message_send_async_def Let_def add_message_full same_mail_def)
    next
      case False
      then have "queue_size (actor_pool s r) < max_queue_size (actor_pool s r)" by simp
      then show ?thesis using 2 Some assms
        by (simp add: message_send_async_def Let_def add_message_room same_mail_def
            split: option.splits if_splits)
    qed
  qed
qed

lemma send_ok_effect:
  assumes "fst (message_send_async s rid ty data psize alloc_ok)"
  shows "\<exists>r m. actor_get s rid = Some r \<and> scheduler_initialized s
           \<and> queue_size (actor_pool s r) < max_queue_size (actor_pool s r)
           \<and> msg_type m = ty
           \<and> actors (snd (message_send_async s rid ty data psize alloc_ok)) = actors s
           \<and> scheduler_initialized (snd (message_send_async s rid ty data psize alloc_ok))
           \<and> (\<forall>p. message_queue (actor_pool (snd (message_send_async s rid ty data psize alloc_ok)) p)
                    = (if p = r then message_queue (actor_pool s p) @ [m]
                       else message_queue (actor_pool s p))
                 \<and> queue_size (actor_pool (snd (message_send_async s rid ty data psize alloc_ok)) p)
                    = (if p = r then queue_size (actor_pool s p) + 1 else queue_size (actor_pool s p))
                 \<and> max_queue_size (actor_pool (snd (message_send_async s rid ty data psize alloc_ok)) p)
                    = max_queue_size (actor_pool s p))"
proof (cases s rule: allocate_cases)
  case 1
  then show ?thesis using assms by (simp add: message_send_async_def split: option.splits if_splits)
next
  case (2 i)
  from assms obtain r where r: "actor_get s rid = Some r" and init: "scheduler_initialized s"
    by (auto simp: message_send_async_def split: option.splits if_splits)
  have room: "queue_size (actor_pool s r) < max_queue_size (actor_pool s r)"
    using send_full [OF r] assms by (meson not_le)
  show ?thesis
    using assms 2 r init room
    by (simp add: message_send_async_def Let_def add_message_room
        split: option.splits if_splits)
qed

subsection \<open>Scheduler: the mailbox bound along histories\<close>

lemma sched_inv_same: "same_mail s s' \<Longrightarrow> sched_inv s \<Longrightarrow> sched_inv s'"
  using mailbox_inv_same [of s s'] by (simp add: sched_inv_def same_mailD)

lemma receive_None: "fst (message_receive s) = None \<Longrightarrow> snd (message_receive s) = s"
  by (simp add: message_receive_def Let_def split: option.splits list.splits)

lemma receive_Some:
  assumes "fst (message_receive s) = Some m"
  shows "\<exists>c rest. current_actor s = Some c \<and> message_queue (actor_pool s c) = m # rest
           \<and> actors (snd (message_receive s)) = actors s
           \<and> scheduler_initialized (snd (message_receive s)) = scheduler_initialized s
           \<and> current_actor (snd (message_receive s)) = current_actor s
           \<and> (\<forall>p. message_queue (actor_pool (snd (message_receive s)) p)
                    = (if p = c then rest else message_queue (actor_pool s p))
                 \<and> queue_size (actor_pool (snd (message_receive s)) p)
                    = (if p = c then queue_size (actor_pool s p) - 1 else queue_size (actor_pool s p))
                 \<and> max_queue_size (actor_pool (snd (message_receive s)) p)
                    = max_queue_size (actor_pool s p))"
  using assms
  by (auto simp: message_receive_def Let_def split: option.splits list.splits)

lemma receive_current: "current_actor (snd (message_receive s)) = current_actor s"
  by (simp add: message_receive_def Let_def split: option.splits list.splits)

lemma unat_succ_below: "a < (b :: u32) \<Longrightarrow> unat (a + 1) = Suc (unat a)"
proof -
  assume "a < b"
  then have "unat a < unat b" by (simp add: word_less_nat_alt)
  moreover have "unat b < 2 ^ 32" using unsigned_less [of b] by simp
  ultimately have "unat a + 1 < 2 ^ 32" by simp
  then show ?thesis by (simp add: unat_word_ariths)
qed

lemma unat_pred_pos: "unat (a :: u32) = Suc n \<Longrightarrow> unat (a - 1) = n"
proof -
  assume a: "unat a = Suc n"
  then have "a \<noteq> 0" by auto
  then have "unat (a - 1) = unat a - 1" by (rule unat_minus_one)
  with a show ?thesis by simp
qed

lemma inv_receive: "sched_inv s \<Longrightarrow> sched_inv (snd (message_receive s))"
proof (cases "fst (message_receive s)")
  case None
  then show "sched_inv s \<Longrightarrow> ?thesis" by (simp add: receive_None)
next
  case (Some m)
  assume inv: "sched_inv s"
  from receive_Some [OF Some] obtain c rest where
    c: "message_queue (actor_pool s c) = m # rest"
    and a: "actors (snd (message_receive s)) = actors s"
      "scheduler_initialized (snd (message_receive s)) = scheduler_initialized s"
    and q: "\<And>p. message_queue (actor_pool (snd (message_receive s)) p)
                    = (if p = c then rest else message_queue (actor_pool s p))"
      "\<And>p. queue_size (actor_pool (snd (message_receive s)) p)
                    = (if p = c then queue_size (actor_pool s p) - 1 else queue_size (actor_pool s p))"
      "\<And>p. max_queue_size (actor_pool (snd (message_receive s)) p)
                    = max_queue_size (actor_pool s p)"
    by blast
  from inv have ok: "\<And>p. mbox_ok (actor_pool s p)" by (simp add: sched_inv_def mailbox_inv_def)
  have "\<And>p. mbox_ok (actor_pool (snd (message_receive s)) p)"
  proof -
    fix p
    show "mbox_ok (actor_pool (snd (message_receive s)) p)"
    proof (cases "p = c")
      case True
      from ok [of c] c have "unat (queue_size (actor_pool s c)) = Suc (length rest)"
        and "Suc (length rest) \<le> unat (max_queue_size (actor_pool s c))"
        by (simp_all add: mbox_ok_def)
      then show ?thesis using True
        by (simp add: mbox_ok_def q unat_pred_pos)
    next
      case False
      then show ?thesis using ok [of p] by (simp add: mbox_ok_def q)
    qed
  qed
  then show ?thesis using inv a by (simp add: sched_inv_def mailbox_inv_def)
qed

lemma inv_send: "sched_inv s \<Longrightarrow> sched_inv (snd (message_send_async s rid ty data psize alloc_ok))"
proof (cases "fst (message_send_async s rid ty data psize alloc_ok)")
  case False
  then show "sched_inv s \<Longrightarrow> ?thesis" using sched_inv_same [OF send_fail_frame] by blast
next
  case True
  assume inv: "sched_inv s"
  let ?s' = "snd (message_send_async s rid ty data psize alloc_ok)"
  from send_ok_effect [OF True] obtain r m where
    room: "queue_size (actor_pool s r) < max_queue_size (actor_pool s r)"
    and a: "actors ?s' = actors s" "scheduler_initialized ?s'"
    and q: "\<And>p. message_queue (actor_pool ?s' p)
                    = (if p = r then message_queue (actor_pool s p) @ [m]
                       else message_queue (actor_pool s p))"
      "\<And>p. queue_size (actor_pool ?s' p)
                    = (if p = r then queue_size (actor_pool s p) + 1 else queue_size (actor_pool s p))"
      "\<And>p. max_queue_size (actor_pool ?s' p) = max_queue_size (actor_pool s p)"
    by blast
  from inv have ok: "\<And>p. mbox_ok (actor_pool s p)" by (simp add: sched_inv_def mailbox_inv_def)
  have "\<And>p. mbox_ok (actor_pool ?s' p)"
  proof -
    fix p
    show "mbox_ok (actor_pool ?s' p)"
    proof (cases "p = r")
      case True
      from room have "unat (queue_size (actor_pool s r)) < unat (max_queue_size (actor_pool s r))"
        by (simp add: word_less_nat_alt)
      then show ?thesis using True ok [of r] unat_succ_below [OF room]
        by (simp add: mbox_ok_def q)
    next
      case False
      then show ?thesis using ok [of p] by (simp add: mbox_ok_def q)
    qed
  qed
  then show ?thesis using a by (simp add: sched_inv_def mailbox_inv_def)
qed

lemma inv_wait: "sched_inv s \<Longrightarrow> sched_inv (snd (message_wait s t))"
proof -
  assume inv: "sched_inv s"
  show ?thesis
  proof (cases "current_actor s")
    case None
    then show ?thesis using inv by (simp add: message_wait_def)
  next
    case (Some c)
    show ?thesis
    proof (cases "message_receive s")
      case (Pair mo s1)
      show ?thesis
      proof (cases mo)
        case (Some m)
        then show ?thesis using inv_receive [OF inv] Pair \<open>current_actor s = Some c\<close>
          by (simp add: message_wait_def)
      next
        case None
        then have s1: "s1 = s" using receive_None [of s] Pair by simp
        let ?s4 = "scheduler_yield (scheduler_remove_from_ready_queue
                     (upd_actor c (\<lambda>a. a\<lparr>a_state := ACTOR_STATE_BLOCKED\<rparr>) s) (Some c))"
        have "same_mail s ?s4" by (simp add: same_mail_def)
        then have "sched_inv ?s4" using inv by (rule sched_inv_same)
        then have "sched_inv (snd (message_receive ?s4))" by (rule inv_receive)
        then show ?thesis using Pair None s1 \<open>current_actor s = Some c\<close>
          by (simp add: message_wait_def Let_def)
      qed
    qed
  qed
qed

lemma inv_kernel_actor: "sched_inv s \<Longrightarrow> sched_inv ((actor_create_kernel_actor s)\<lparr>scheduler_initialized := True\<rparr>)"
  by (simp add: sched_inv_def mailbox_inv_def mbox_ok_def actor_create_kernel_actor_def Let_def)

lemma inv_init: "sched_inv s \<Longrightarrow> sched_inv (scheduler_init s)"
proof -
  assume inv: "sched_inv s"
  have "sched_inv (s\<lparr>ready_queue := None, current_actor := None, next_actor_id := 1,
                 scheduler_enabled := False, tick_count := 0, current_timeslice := 0,
                 sched_ai_supervision := True,
                 actors := (\<lambda>i. if i < MAX_ACTORS then None else actors s i),
                 actor_pool_used := (\<lambda>i. if i < MAX_ACTORS then False else actor_pool_used s i),
                 message_pool_used :=
                   (\<lambda>i. if i < MAX_MESSAGES then False else message_pool_used s i),
                 statistics := \<lparr>context_switches = 0, actors_created = 0, actors_destroyed = 0,
                   messages_sent = 0, messages_delivered = 0, current_actors = 0,
                   ready_actors = 0\<rparr>\<rparr>)"
    using inv by (simp add: sched_inv_def mailbox_inv_def)
  then show ?thesis
    unfolding scheduler_init_def Let_def by (rule inv_kernel_actor)
qed

lemma inv_create: "sched_inv s \<Longrightarrow> sched_inv (snd (actor_create s e u pr sz st))"
  by (simp add: actor_create_def Let_def sched_inv_def mailbox_inv_def mbox_ok_def
      split: option.splits)

lemma fold_free_pool:
  "actor_pool (fold (\<lambda>m t. message_free t (Some m)) ms s) = actor_pool s
   \<and> actors (fold (\<lambda>m t. message_free t (Some m)) ms s) = actors s
   \<and> scheduler_initialized (fold (\<lambda>m t. message_free t (Some m)) ms s) = scheduler_initialized s"
  by (induction ms arbitrary: s) (simp_all add: message_free_def)

lemma inv_terminate: "sched_inv s \<Longrightarrow> sched_inv (actor_terminate s aid)"
  by (simp add: actor_terminate_def actor_clear_message_queue_def Let_def sched_inv_def
      mailbox_inv_def mbox_ok_def fold_free_pool split: option.splits)

lemma inv_exec: "sched_inv s \<Longrightarrow> sched_inv (snd (sched_exec s op))"
proof (cases op)
  case OpInit
  then show "sched_inv s \<Longrightarrow> ?thesis" by (simp add: inv_init)
next
  case OpStart
  then show "sched_inv s \<Longrightarrow> ?thesis" using sched_inv_same [OF same_mail_start] by simp
next
  case OpSchedule
  then show "sched_inv s \<Longrightarrow> ?thesis" using sched_inv_same [OF same_mail_schedule] by simp
next
  case OpYield
  then show "sched_inv s \<Longrightarrow> ?thesis" using sched_inv_same [OF same_mail_yield] by simp
next
  case OpTimer
  then show "sched_inv s \<Longrightarrow> ?thesis" using sched_inv_same [OF same_mail_timer] by simp
next
  case (OpCreate e u pr sz st)
  then show "sched_inv s \<Longrightarrow> ?thesis" by (simp add: inv_create)
next
  case (OpActorStart aid)
  then show "sched_inv s \<Longrightarrow> ?thesis" using sched_inv_same [OF same_mail_actor_start] by simp
next
  case (OpTerminate aid)
  then show "sched_inv s \<Longrightarrow> ?thesis" by (simp add: inv_terminate)
next
  case (OpSend rid ty data psize alloc_ok)
  then show "sched_inv s \<Longrightarrow> ?thesis" using inv_send [of s rid ty data psize alloc_ok]
    by (simp add: split_beta Let_def)
next
  case OpReceive
  then show "sched_inv s \<Longrightarrow> ?thesis" using inv_receive [of s] by (simp add: split_beta Let_def)
next
  case (OpWait t)
  then show "sched_inv s \<Longrightarrow> ?thesis" using inv_wait [of s t] by (simp add: split_beta Let_def)
next
  case (OpFree m)
  then show "sched_inv s \<Longrightarrow> ?thesis" using sched_inv_same [OF same_mail_free] by simp
qed

lemma inv_run: "sched_inv s \<Longrightarrow> sched_inv (snd (sched_run s ops))"
proof (induction ops arbitrary: s)
  case Nil
  then show ?case by simp
next
  case (Cons op ops)
  from Cons.IH [OF inv_exec [OF Cons.prems, of op]] show ?case
    by (simp add: split_beta Let_def)
qed

lemma inv_boot: "sched_inv scheduler_boot"
  by (simp add: sched_inv_def mailbox_inv_def mbox_ok_def scheduler_boot_def zero_actor_def)


subsection \<open>Backpressure\<close>

lemma pool_used_fields [simp]:
  "message_pool_used (scheduler_add_to_ready_queue s x) = message_pool_used s"
  by (simp add: scheduler_add_to_ready_queue_def Let_def split: option.splits)

lemma allocate_free_from:
  assumes "free_from k s" "k < MAX_MESSAGES"
  shows "\<exists>j. j \<le> k \<and> message_allocate s
           = (Some j, s\<lparr>message_pool_used := (message_pool_used s)(j := True)\<rparr>)"
proof (cases "List.find (\<lambda>i. \<not> message_pool_used s i) [0 ..< MAX_MESSAGES]")
  case None
  then have "message_pool_used s k" using assms(2) by (auto simp: find_None_iff)
  with assms show ?thesis by (simp add: free_from_def)
next
  case (Some j)
  then have first: "\<And>i. i < j \<Longrightarrow> message_pool_used s i" and "j < MAX_MESSAGES"
    by (auto simp: find_Some_iff)
  from assms have "\<not> message_pool_used s k" by (simp add: free_from_def)
  with first have "j \<le> k" by (meson not_le)
  with Some show ?thesis by (simp add: message_allocate_def)
qed

lemma send_succeeds:
  assumes init: "scheduler_initialized s"
    and r: "actor_get s rid = Some r"
    and room: "queue_size (actor_pool s r) < max_queue_size (actor_pool s r)"
    and alloc: "fst (message_allocate s) \<noteq> None"
    and copy: "data \<noteq> None \<and> psize > 0 \<longrightarrow> alloc_ok"
  shows "fst (message_send_async s rid ty data psize alloc_ok)"
proof (cases s rule: allocate_cases)
  case 1
  with alloc show ?thesis by simp
next
  case (2 i)
  then show ?thesis using init r room copy
    by (auto simp: message_send_async_def Let_def add_message_room split: option.splits)
qed

lemma send_free_from:
  assumes "free_from k s" "k < MAX_MESSAGES"
  shows "free_from (Suc k) (snd (message_send_async s rid ty data psize alloc_ok))"
proof -
  from allocate_free_from [OF assms] obtain j where j: "j \<le> k"
    and al: "message_allocate s = (Some j, s\<lparr>message_pool_used := (message_pool_used s)(j := True)\<rparr>)"
    by blast
  show ?thesis
  proof (cases "actor_get s rid")
    case None
    then show ?thesis using assms by (simp add: message_send_async_def free_from_def)
  next
    case (Some r)
    show ?thesis
    proof (cases "queue_size (actor_pool s r) \<ge> max_queue_size (actor_pool s r)")
      case True
      then show ?thesis using al Some assms(1) j
        by (auto simp: message_send_async_def Let_def add_message_full free_from_def message_free_def)
    next
      case False
      then have "queue_size (actor_pool s r) < max_queue_size (actor_pool s r)" by simp
      then show ?thesis using al Some assms(1) j
        by (auto simp: message_send_async_def Let_def add_message_room free_from_def message_free_def
            split: option.splits)
    qed
  qed
qed

lemma send_many_fills:
  assumes "scheduler_initialized s" "actor_get s 2 = Some r"
    and "unat (queue_size (actor_pool s r)) + n \<le> unat (max_queue_size (actor_pool s r))"
    and "free_from k s" "k + n \<le> MAX_MESSAGES"
  shows "scheduler_initialized (send_many n s) \<and> actor_get (send_many n s) 2 = Some r
       \<and> max_queue_size (actor_pool (send_many n s) r) = max_queue_size (actor_pool s r)
       \<and> unat (queue_size (actor_pool (send_many n s) r)) = unat (queue_size (actor_pool s r)) + n
       \<and> length (message_queue (actor_pool (send_many n s) r))
           = length (message_queue (actor_pool s r)) + n"
  using assms
proof (induction n arbitrary: s k)
  case 0
  then show ?case by simp
next
  case (Suc n)
  let ?s' = "snd (message_send_async s 2 MSG_TYPE_ASYNC None 0 True)"
  from Suc.prems(3) have room: "queue_size (actor_pool s r) < max_queue_size (actor_pool s r)"
    by (simp add: word_less_nat_alt)
  from Suc.prems(5) have k: "k < MAX_MESSAGES" by simp
  from allocate_free_from [OF Suc.prems(4) k] have al: "fst (message_allocate s) \<noteq> None" by auto
  have ok: "fst (message_send_async s 2 MSG_TYPE_ASYNC None 0 True)"
    by (rule send_succeeds [OF Suc.prems(1,2) room al]) simp
  from send_ok_effect [OF ok] Suc.prems(2) obtain m where
    a: "actors ?s' = actors s" "scheduler_initialized ?s'"
    and q: "message_queue (actor_pool ?s' r) = message_queue (actor_pool s r) @ [m]"
      "queue_size (actor_pool ?s' r) = queue_size (actor_pool s r) + 1"
      "max_queue_size (actor_pool ?s' r) = max_queue_size (actor_pool s r)"
    by auto
  have "actor_get ?s' 2 = actor_get s 2" by (simp add: actor_get_def a(1))
  then have g: "actor_get ?s' 2 = Some r" using Suc.prems(2) by simp
  have u: "unat (queue_size (actor_pool ?s' r)) = Suc (unat (queue_size (actor_pool s r)))"
    using unat_succ_below [OF room] q by simp
  have f: "free_from (Suc k) ?s'" by (rule send_free_from [OF Suc.prems(4) k])
  have "scheduler_initialized (send_many n ?s') \<and> actor_get (send_many n ?s') 2 = Some r
       \<and> max_queue_size (actor_pool (send_many n ?s') r) = max_queue_size (actor_pool ?s' r)
       \<and> unat (queue_size (actor_pool (send_many n ?s') r)) = unat (queue_size (actor_pool ?s' r)) + n
       \<and> length (message_queue (actor_pool (send_many n ?s') r))
           = length (message_queue (actor_pool ?s' r)) + n"
    by (rule Suc.IH [OF a(2) g _ f]) (use Suc.prems u q in simp_all)
  then show ?case using q u by simp
qed

lemma two_actors_facts:
  "scheduler_initialized two_actors" "actor_get two_actors 2 = Some 2"
  "queue_size (actor_pool two_actors 2) = 0" "max_queue_size (actor_pool two_actors 2) = 64"
  "message_queue (actor_pool two_actors 2) = []"
  by code_simp+

lemma pool_used_create:
  "message_pool_used (snd (actor_create s e u pr sz st)) = message_pool_used s"
  by (simp add: actor_create_def Let_def split: option.splits)

lemma pool_used_actor_start:
  "message_pool_used (snd (actor_start s aid)) = message_pool_used s"
  by (simp add: actor_start_def split: option.splits)

lemma pool_used_init: "i < MAX_MESSAGES \<Longrightarrow> \<not> message_pool_used (scheduler_init s) i"
  by (simp add: scheduler_init_def Let_def actor_create_kernel_actor_def)

lemma two_actors_free: "free_from 0 two_actors"
  by (simp add: free_from_def two_actors_def Let_def pool_used_create pool_used_actor_start
      pool_used_init)

lemma full_mailbox_facts:
  "scheduler_initialized full_mailbox" "actor_get full_mailbox 2 = Some 2"
  "max_queue_size (actor_pool full_mailbox 2) = 64"
  "queue_size (actor_pool full_mailbox 2) = 64"
  "length (message_queue (actor_pool full_mailbox 2)) = 64"
proof -
  have "unat (queue_size (actor_pool two_actors 2)) + 64 \<le> unat (max_queue_size (actor_pool two_actors 2))"
    by (simp add: two_actors_facts)
  from send_many_fills [OF two_actors_facts(1,2) this two_actors_free]
  have a: "scheduler_initialized full_mailbox \<and> actor_get full_mailbox 2 = Some 2
       \<and> max_queue_size (actor_pool full_mailbox 2) = 64
       \<and> unat (queue_size (actor_pool full_mailbox 2)) = 64
       \<and> length (message_queue (actor_pool full_mailbox 2)) = 64"
    by (simp add: full_mailbox_def two_actors_facts MAX_MESSAGES_def)
  then show "scheduler_initialized full_mailbox" "actor_get full_mailbox 2 = Some 2"
    "max_queue_size (actor_pool full_mailbox 2) = 64"
    "length (message_queue (actor_pool full_mailbox 2)) = 64" by simp_all
  from a have "unat (queue_size (actor_pool full_mailbox 2)) = unat (64 :: u32)" by simp
  then show "queue_size (actor_pool full_mailbox 2) = 64" by (simp only: word_unat_eq_iff)
qed





lemma sched_run_append:
  "snd (sched_run s (xs @ ys)) = snd (sched_run (snd (sched_run s xs)) ys)"
  by (induction xs arbitrary: s) (simp_all add: split_beta Let_def)

lemma sched_run_sends:
  "snd (sched_run s (replicate n (OpSend 2 MSG_TYPE_ASYNC None 0 True))) = send_many n s"
  by (induction n arbitrary: s) (simp_all add: split_beta Let_def)

lemma sched_run_fill: "snd (sched_run scheduler_boot (fill_ops n)) = send_many n two_actors"
  by (simp add: fill_ops_def sched_run_append sched_run_sends two_actors_def split_beta Let_def)

lemma send_many_free:
  "free_from k s \<Longrightarrow> k + n \<le> MAX_MESSAGES \<Longrightarrow> free_from (k + n) (send_many n s)"
proof (induction n arbitrary: s k)
  case 0
  then show ?case by simp
next
  case (Suc n)
  from Suc.prems have k: "k < MAX_MESSAGES" by simp
  have "free_from (Suc k + n) (send_many n (snd (message_send_async s 2 MSG_TYPE_ASYNC None 0 True)))"
    by (rule Suc.IH [OF send_free_from [OF Suc.prems(1) k]]) (use Suc.prems in simp)
  then show ?case by simp
qed

text \<open>
  Histories that satisfy the ownership rule: a history whose calls are allowed in every
  state, and the histories \<open>fill_ops n\<close> from boot.
\<close>

lemma owned_run_always:
  "(\<And>op t. op \<in> set ops \<Longrightarrow> op_owned t op) \<Longrightarrow> owned_run s ops"
  by (induction ops arbitrary: s) simp_all

lemma owned_fill: "owned_run scheduler_boot (fill_ops n)"
proof -
  have "owned_run (scheduler_init scheduler_boot)
      ([OpCreate 0x1000 0 ACTOR_PRIORITY_CRITICAL 4096 0x8000,
        OpCreate 0x2000 0 ACTOR_PRIORITY_LOW 4096 0x9000,
        OpActorStart 1, OpActorStart 2] @ replicate n (OpSend 2 MSG_TYPE_ASYNC None 0 True))"
    by (rule owned_run_always) auto
  moreover have "op_owned scheduler_boot OpInit"
    by (simp add: scheduler_boot_def zero_actor_def)
  ultimately show ?thesis by (simp add: fill_ops_def)
qed

text \<open>
  Claim C6. In every state that a history of scheduler calls reaches from boot, the
  calls keeping to the ownership rule of the messaging interface, every
  actor's mailbox holds no more messages than its capacity (and the counter the code
  tests equals the length of the mailbox). In such a state a send to an existing
  recipient whose mailbox holds exactly its capacity fails, and a send to one whose
  mailbox holds one less succeeds and fills it, provided a message slot is free and the
  payload buffer, if one is needed, can be allocated.
\<close>

theorem mailbox_bounded:
  assumes reach: "s = snd (sched_run scheduler_boot ops)"
    and own: "owned_run scheduler_boot ops"
  shows "mailbox_inv s
       \<and> (actor_get s rid = Some r
            \<and> length (message_queue (actor_pool s r)) = unat (max_queue_size (actor_pool s r))
          \<longrightarrow> fst (message_send_async s rid ty data psize alloc_ok) = False)
       \<and> (actor_get s rid = Some r
            \<and> Suc (length (message_queue (actor_pool s r))) = unat (max_queue_size (actor_pool s r))
            \<and> fst (message_allocate s) \<noteq> None
            \<and> (data \<noteq> None \<and> psize > 0 \<longrightarrow> alloc_ok)
          \<longrightarrow> fst (message_send_async s rid ty data psize alloc_ok) = True
              \<and> length (message_queue
                   (actor_pool (snd (message_send_async s rid ty data psize alloc_ok)) r))
                 = unat (max_queue_size (actor_pool s r)))"
proof -
  have inv: "sched_inv s" unfolding reach by (rule inv_run [OF inv_boot])
  then have ok: "\<And>p. mbox_ok (actor_pool s p)" by (simp add: sched_inv_def mailbox_inv_def)
  have full: "fst (message_send_async s rid ty data psize alloc_ok) = False"
    if "actor_get s rid = Some r"
      "length (message_queue (actor_pool s r)) = unat (max_queue_size (actor_pool s r))"
  proof -
    from ok [of r] that(2) have "max_queue_size (actor_pool s r) \<le> queue_size (actor_pool s r)"
      by (simp add: mbox_ok_def word_le_nat_alt)
    from send_full [OF that(1) this] show ?thesis by simp
  qed
  have room: "fst (message_send_async s rid ty data psize alloc_ok) = True
              \<and> length (message_queue
                   (actor_pool (snd (message_send_async s rid ty data psize alloc_ok)) r))
                 = unat (max_queue_size (actor_pool s r))"
    if "actor_get s rid = Some r"
      "Suc (length (message_queue (actor_pool s r))) = unat (max_queue_size (actor_pool s r))"
      "fst (message_allocate s) \<noteq> None" "data \<noteq> None \<and> psize > 0 \<longrightarrow> alloc_ok"
  proof -
    from ok [of r] that(2) have lt: "queue_size (actor_pool s r) < max_queue_size (actor_pool s r)"
      by (simp add: mbox_ok_def word_less_nat_alt)
    from that(1) have "\<exists>i. actors s i \<noteq> None" by (auto simp: actor_get_def split: if_splits)
    with inv have init: "scheduler_initialized s" by (auto simp: sched_inv_def)
    have succ: "fst (message_send_async s rid ty data psize alloc_ok)"
      by (rule send_succeeds [OF init that(1) lt that(3,4)])
    from send_ok_effect [OF succ] that(1) obtain m where
      "message_queue (actor_pool (snd (message_send_async s rid ty data psize alloc_ok)) r)
         = message_queue (actor_pool s r) @ [m]"
      by auto
    with succ that(2) show ?thesis by simp
  qed
  from inv full room show ?thesis by (simp add: sched_inv_def)
qed

text \<open>
  Actor 2, capacity 64, after 64 sends and after 63; both histories keep to the
  ownership rule.
\<close>

theorem mailbox_bounded_witness:
  "owned_run scheduler_boot (fill_ops 64) \<and> owned_run scheduler_boot (fill_ops 63)
   \<and> length (message_queue (actor_pool (snd (sched_run scheduler_boot (fill_ops 64))) 2)) = 64
   \<and> max_queue_size (actor_pool (snd (sched_run scheduler_boot (fill_ops 64))) 2) = 64
   \<and> fst (message_send_async (snd (sched_run scheduler_boot (fill_ops 64))) 2 MSG_TYPE_ASYNC None 0 True)
       = False
   \<and> length (message_queue (actor_pool (snd (sched_run scheduler_boot (fill_ops 63))) 2)) = 63
   \<and> max_queue_size (actor_pool (snd (sched_run scheduler_boot (fill_ops 63))) 2) = 64
   \<and> fst (message_send_async (snd (sched_run scheduler_boot (fill_ops 63))) 2 MSG_TYPE_ASYNC None 0 True)
       = True
   \<and> length (message_queue (actor_pool (snd (message_send_async
        (snd (sched_run scheduler_boot (fill_ops 63))) 2 MSG_TYPE_ASYNC None 0 True)) 2)) = 64"
proof -
  define s63 where "s63 = snd (sched_run scheduler_boot (fill_ops 63))"
  define s64 where "s64 = snd (sched_run scheduler_boot (fill_ops 64))"
  have e64: "s64 = full_mailbox" by (simp add: s64_def sched_run_fill full_mailbox_def)
  have e63: "s63 = send_many 63 two_actors" by (simp add: s63_def sched_run_fill)
  have "unat (queue_size (actor_pool two_actors 2)) + 63 \<le> unat (max_queue_size (actor_pool two_actors 2))"
    by (simp add: two_actors_facts)
  from send_many_fills [OF two_actors_facts(1,2) this two_actors_free]
  have f63: "actor_get s63 2 = Some 2" "max_queue_size (actor_pool s63 2) = 64"
    "length (message_queue (actor_pool s63 2)) = 63"
    by (simp_all add: e63 two_actors_facts MAX_MESSAGES_def)
  have "free_from (0 + 63) (send_many 63 two_actors)"
    by (rule send_many_free [OF two_actors_free]) (simp add: MAX_MESSAGES_def)
  then have "free_from 63 s63" by (simp add: e63)
  from allocate_free_from [OF this] have al: "fst (message_allocate s63) \<noteq> None"
    by (auto simp: MAX_MESSAGES_def)
  have a: "fst (message_send_async s64 2 MSG_TYPE_ASYNC None 0 True) = False"
    using mailbox_bounded [OF s64_def owned_fill, of 2 2 MSG_TYPE_ASYNC None 0 True]
    by (simp add: e64 full_mailbox_facts)
  have b: "fst (message_send_async s63 2 MSG_TYPE_ASYNC None 0 True) = True
     \<and> length (message_queue (actor_pool (snd (message_send_async s63 2 MSG_TYPE_ASYNC None 0 True)) 2))
        = 64"
    using mailbox_bounded [OF s63_def owned_fill, of 2 2 MSG_TYPE_ASYNC None 0 True] f63 al
    by simp
  have c: "owned_run scheduler_boot (fill_ops 64) \<and> owned_run scheduler_boot (fill_ops 63)"
    by (simp add: owned_fill)
  have d: "length (message_queue (actor_pool s64 2)) = 64
   \<and> max_queue_size (actor_pool s64 2) = 64
   \<and> fst (message_send_async s64 2 MSG_TYPE_ASYNC None 0 True) = False
   \<and> length (message_queue (actor_pool s63 2)) = 63
   \<and> max_queue_size (actor_pool s63 2) = 64
   \<and> fst (message_send_async s63 2 MSG_TYPE_ASYNC None 0 True) = True
   \<and> length (message_queue (actor_pool (snd (message_send_async s63 2 MSG_TYPE_ASYNC None 0 True)) 2)) = 64"
    using a b f63 full_mailbox_facts by (simp add: e64)
  from c d show ?thesis unfolding s63_def s64_def by (rule conjI [THEN conj_assoc [THEN iffD1]])
qed


subsection \<open>Waiting for a message\<close>

lemma state_remove [simp]:
  "a_state (actor_pool (scheduler_remove_from_ready_queue s x) p) = a_state (actor_pool s p)"
  "current_actor (scheduler_remove_from_ready_queue s x) = current_actor s"
  "scheduler_enabled (scheduler_remove_from_ready_queue s x) = scheduler_enabled s"
  "context_switches (statistics (scheduler_remove_from_ready_queue s x)) = context_switches (statistics s)"
  by (simp_all add: scheduler_remove_from_ready_queue_def Let_def split: option.splits)

lemma state_consts_actor:
  "ACTOR_STATE_BLOCKED \<noteq> ACTOR_STATE_RUNNING" "ACTOR_STATE_RUNNING \<noteq> ACTOR_STATE_BLOCKED"
  by (simp_all add: ACTOR_STATE_BLOCKED_def ACTOR_STATE_RUNNING_def)

lemma schedule_not_running:
  assumes "current_actor t = Some c" "a_state (actor_pool t c) \<noteq> ACTOR_STATE_RUNNING"
  shows "a_state (actor_pool (scheduler_schedule t) c) = a_state (actor_pool t c)"
    and "context_switches (statistics (scheduler_schedule t))
           = (if scheduler_enabled t then context_switches (statistics t) + 1
              else context_switches (statistics t))"
  using assms
  by (auto simp: scheduler_schedule_def scheduler_context_switch_def Let_def split: option.splits)

lemma receive_state [simp]:
  "a_state (actor_pool (snd (message_receive s)) p) = a_state (actor_pool s p)"
  "context_switches (statistics (snd (message_receive s))) = context_switches (statistics s)"
  by (simp_all add: message_receive_def Let_def split: option.splits list.splits)

lemma wait_effect:
  assumes cur: "current_actor s = Some c" and empty: "message_queue (actor_pool s c) = []"
  shows "message_wait s timeout_ms = message_wait s 0
       \<and> a_state (actor_pool (snd (message_wait s timeout_ms)) c) = ACTOR_STATE_BLOCKED
       \<and> (scheduler_initialized s \<and> scheduler_enabled s \<longrightarrow>
            context_switches (statistics (snd (message_wait s timeout_ms)))
              = context_switches (statistics s) + 1)"
proof -
  let ?s3 = "scheduler_remove_from_ready_queue
               (upd_actor c (\<lambda>a. a\<lparr>a_state := ACTOR_STATE_BLOCKED\<rparr>) s) (Some c)"
  have rcv: "message_receive s = (None, s)"
    using cur empty by (simp add: message_receive_def)
  have w: "\<And>t. message_wait s t = message_receive (scheduler_yield ?s3)"
    using cur rcv by (simp add: message_wait_def Let_def)
  have c3: "current_actor ?s3 = Some c" using cur by simp
  have b3: "a_state (actor_pool ?s3 c) = ACTOR_STATE_BLOCKED" by simp
  then have n3: "a_state (actor_pool ?s3 c) \<noteq> ACTOR_STATE_RUNNING"
    by (simp add: state_consts_actor)
  have y: "scheduler_yield ?s3 = (if scheduler_initialized s then scheduler_schedule ?s3 else ?s3)"
    using c3 n3 by (simp add: scheduler_yield_def Let_def)
  have "a_state (actor_pool (scheduler_yield ?s3) c) = ACTOR_STATE_BLOCKED"
    using schedule_not_running(1) [OF c3 n3] b3 by (simp add: y)
  moreover have "scheduler_initialized s \<and> scheduler_enabled s \<longrightarrow>
      context_switches (statistics (scheduler_yield ?s3)) = context_switches (statistics s) + 1"
    using schedule_not_running(2) [OF c3 n3] by (simp add: y)
  ultimately show ?thesis by (simp add: w)
qed

lemma running_two_facts:
  "current_actor running_two = Some 2"
  "message_queue (actor_pool running_two 2) = []"
  "a_state (actor_pool running_two 2) = ACTOR_STATE_RUNNING"
  "context_switches (statistics running_two) = 1"
  "scheduler_initialized running_two" "scheduler_enabled running_two"
  by code_simp+

text \<open>
  Claim C8 as stated does not hold. Actor 2 is running with an empty mailbox and calls
  \<^verbatim>\<open>message_wait\<close> with timeout 0: it ends up Blocked, and the scheduler has run
  (its count of scheduling passes went from 1 to 2).
\<close>

theorem wait_zero_counterexample:
  "current_actor running_two = Some 2
   \<and> message_queue (actor_pool running_two 2) = []
   \<and> a_state (actor_pool running_two 2) = ACTOR_STATE_RUNNING
   \<and> a_state (actor_pool (snd (message_wait running_two 0)) 2) = ACTOR_STATE_BLOCKED
   \<and> context_switches (statistics running_two) = 1
   \<and> context_switches (statistics (snd (message_wait running_two 0))) = 2"
  using wait_effect [OF running_two_facts(1,2), of 0] running_two_facts
  by simp

text \<open>
  Claim C8, amended. \<^verbatim>\<open>message_wait\<close> makes no use of its timeout. On an empty
  mailbox, with timeout 0 as with any other, it marks the caller Blocked and yields to
  the scheduler, which, when enabled, counts one more scheduling pass.
\<close>

theorem wait_ignores_timeout:
  assumes "current_actor s = Some c" and "message_queue (actor_pool s c) = []"
  shows "message_wait s timeout_ms = message_wait s 0
       \<and> a_state (actor_pool (snd (message_wait s timeout_ms)) c) = ACTOR_STATE_BLOCKED
       \<and> (scheduler_initialized s \<and> scheduler_enabled s \<longrightarrow>
            context_switches (statistics (snd (message_wait s timeout_ms)))
              = context_switches (statistics s) + 1)"
  using assms by (rule wait_effect)

text \<open>The amended claim for the running actor 2 and a timeout of 5.\<close>

theorem wait_ignores_timeout_witness:
  "current_actor running_two = Some 2
   \<and> message_queue (actor_pool running_two 2) = []
   \<and> scheduler_initialized running_two \<and> scheduler_enabled running_two
   \<and> message_wait running_two 5 = message_wait running_two 0
   \<and> a_state (actor_pool (snd (message_wait running_two 5)) 2) = ACTOR_STATE_BLOCKED
   \<and> context_switches (statistics (snd (message_wait running_two 5)))
       = context_switches (statistics running_two) + 1"
proof -
  note a = running_two_facts(1) and b = running_two_facts(2) and c = running_two_facts(5,6)
  from c wait_ignores_timeout [OF a b, of 5]
  have "message_wait running_two 5 = message_wait running_two 0
   \<and> a_state (actor_pool (snd (message_wait running_two 5)) 2) = ACTOR_STATE_BLOCKED
   \<and> context_switches (statistics (snd (message_wait running_two 5)))
       = context_switches (statistics running_two) + 1"
    by blast
  with a b c show ?thesis by blast
qed


subsection \<open>Mailbox order\<close>

lemma delivered_append: "delivered p (xs @ ys) = delivered p xs @ delivered p ys"
  by (induction p xs rule: delivered.induct) simp_all

lemma enqueued_append: "enqueued p (xs @ ys) = enqueued p xs @ enqueued p ys"
  by (induction p xs rule: enqueued.induct) simp_all

lemma init_mailbox:
  "message_queue (actor_pool (scheduler_init s) p) = (if p = 0 then [] else message_queue (actor_pool s p))"
  by (simp add: scheduler_init_def Let_def actor_create_kernel_actor_def)

lemma create_mailbox:
  "message_queue (actor_pool (snd (actor_create s e u pr sz st)) p) = []
   \<or> message_queue (actor_pool (snd (actor_create s e u pr sz st)) p) = message_queue (actor_pool s p)"
  by (simp add: actor_create_def Let_def split: option.splits)

lemma terminate_mailbox:
  "message_queue (actor_pool (actor_terminate s aid) p) = []
   \<or> message_queue (actor_pool (actor_terminate s aid) p) = message_queue (actor_pool s p)"
  by (simp add: actor_terminate_def actor_clear_message_queue_def Let_def fold_free_pool
      split: option.splits)

lemma send_exec:
  assumes "sched_exec s (OpSend rid ty data psize alloc_ok) = (e, s1)"
  shows "delivered p e @ message_queue (actor_pool s1 p) = message_queue (actor_pool s p) @ enqueued p e"
proof (cases "fst (message_send_async s rid ty data psize alloc_ok)")
  case False
  from same_mailD(3) [OF send_fail_frame [OF False]] False assms show ?thesis
    by (auto simp: split_beta Let_def split: option.splits)
next
  case True
  from send_ok_effect [OF True] obtain r m where
    r: "actor_get s rid = Some r"
    and q: "\<And>p. message_queue (actor_pool (snd (message_send_async s rid ty data psize alloc_ok)) p)
                    = (if p = r then message_queue (actor_pool s p) @ [m]
                       else message_queue (actor_pool s p))"
    by blast
  from assms True r have e: "e = [Enq r (last (message_queue (actor_pool s1 r)))]"
    and s1: "s1 = snd (message_send_async s rid ty data psize alloc_ok)"
    by (auto simp: split_beta Let_def)
  show ?thesis by (simp add: e s1 q)
qed

lemma receive_exec:
  assumes "message_receive s = (Some m, s1)"
  shows "\<exists>c. current_actor s = Some c \<and> current_actor s1 = Some c
           \<and> message_queue (actor_pool s c) \<noteq> []
           \<and> (\<forall>p. delivered p [Deq c m] @ message_queue (actor_pool s1 p)
                    = message_queue (actor_pool s p))"
proof -
  from assms have f: "fst (message_receive s) = Some m" and s1: "s1 = snd (message_receive s)"
    by simp_all
  from receive_Some [OF f] obtain c rest where
    c: "current_actor s = Some c" "message_queue (actor_pool s c) = m # rest"
      "current_actor s1 = current_actor s"
    and q: "\<And>p. message_queue (actor_pool s1 p)
                    = (if p = c then rest else message_queue (actor_pool s p))"
    unfolding s1 by blast
  show ?thesis using c q by auto
qed

lemma wait_exec:
  assumes "sched_exec s (OpWait t) = (e, s1)"
  shows "delivered p e @ message_queue (actor_pool s1 p) = message_queue (actor_pool s p) @ enqueued p e"
proof (cases "current_actor s")
  case None
  with assms show ?thesis by (auto simp: message_wait_def)
next
  case (Some c)
  obtain mo s' where rcv: "message_receive s = (mo, s')" by (cases "message_receive s")
  show ?thesis
  proof (cases mo)
    case (Some m)
    from receive_exec [OF rcv [unfolded Some]] \<open>current_actor s = Some c\<close>
    have ne: "message_queue (actor_pool s c) \<noteq> []"
      and q: "\<And>p. delivered p [Deq c m] @ message_queue (actor_pool s' p)
                    = message_queue (actor_pool s p)"
      by auto
    from assms rcv Some \<open>current_actor s = Some c\<close> ne have "e = [Deq c m]" "s1 = s'"
      by (auto simp: message_wait_def)
    with q [of p] show ?thesis by simp
  next
    case None
    then have s': "s' = s" using receive_None [of s] rcv by simp
    from rcv None \<open>current_actor s = Some c\<close> have empty: "message_queue (actor_pool s c) = []"
      by (auto simp: message_receive_def Let_def split: list.splits)
    let ?s4 = "scheduler_yield (scheduler_remove_from_ready_queue
                 (upd_actor c (\<lambda>a. a\<lparr>a_state := ACTOR_STATE_BLOCKED\<rparr>) s) (Some c))"
    have w: "message_wait s t = message_receive ?s4"
      using rcv None s' \<open>current_actor s = Some c\<close> by (simp add: message_wait_def Let_def)
    have q4: "\<And>p. message_queue (actor_pool ?s4 p) = message_queue (actor_pool s p)" by simp
    obtain mo2 s2 where rcv2: "message_receive ?s4 = (mo2, s2)" by (cases "message_receive ?s4")
    show ?thesis
    proof (cases mo2)
      case None
      then have "s2 = ?s4" using receive_None [of ?s4] rcv2 by simp
      with assms w rcv2 None have "e = []" "s1 = ?s4" by auto
      then show ?thesis by (simp add: q4)
    next
      case (Some m)
      from receive_exec [OF rcv2 [unfolded Some]] obtain c' where
        c': "current_actor s2 = Some c'"
        and q: "\<And>p. delivered p [Deq c' m] @ message_queue (actor_pool s2 p)
                    = message_queue (actor_pool ?s4 p)"
        by blast
      from assms w rcv2 Some \<open>current_actor s = Some c\<close> empty c'
      have "e = [Deq c' m]" "s1 = s2" by auto
      with q [of p] q4 [of p] show ?thesis by simp
    qed
  qed
qed

lemma exec_mailbox:
  assumes "sched_exec s op = (e, s1)"
  shows "delivered p e @ message_queue (actor_pool s1 p) = message_queue (actor_pool s p) @ enqueued p e
       \<or> (discards op \<and> e = []
           \<and> (message_queue (actor_pool s1 p) = []
               \<or> message_queue (actor_pool s1 p) = message_queue (actor_pool s p)))"
proof (cases op)
  case OpInit
  then show ?thesis using assms by (auto simp: init_mailbox)
next
  case OpStart
  then show ?thesis using assms same_mailD(3) [OF same_mail_start] by auto
next
  case OpSchedule
  then show ?thesis using assms by auto
next
  case OpYield
  then show ?thesis using assms by auto
next
  case OpTimer
  then show ?thesis using assms same_mailD(3) [OF same_mail_timer] by auto
next
  case (OpCreate en u pr sz st)
  then show ?thesis using assms create_mailbox [of s en u pr sz st p] by auto
next
  case (OpActorStart aid)
  then show ?thesis using assms same_mailD(3) [OF same_mail_actor_start] by auto
next
  case (OpTerminate aid)
  then show ?thesis using assms terminate_mailbox [of s aid p] by auto
next
  case (OpSend rid ty data psize alloc_ok)
  then show ?thesis using assms send_exec by blast
next
  case OpReceive
  obtain mo s' where rcv: "message_receive s = (mo, s')" by (cases "message_receive s")
  show ?thesis
  proof (cases mo)
    case None
    then have "s' = s" using receive_None [of s] rcv by simp
    with assms OpReceive rcv None show ?thesis by auto
  next
    case (Some m)
    from receive_exec [OF rcv [unfolded Some]] obtain c where
      c: "current_actor s = Some c"
      and q: "\<And>p. delivered p [Deq c m] @ message_queue (actor_pool s' p)
                    = message_queue (actor_pool s p)"
      by blast
    from assms OpReceive rcv Some c have "e = [Deq c m]" "s1 = s'" by auto
    with q [of p] show ?thesis by simp
  qed
next
  case (OpWait t)
  then show ?thesis using assms wait_exec by blast
next
  case (OpFree m)
  then show ?thesis using assms by auto
qed

lemma run_mailbox:
  assumes "sched_run s ops = (evs, s')"
  shows "subseq (delivered p evs @ message_queue (actor_pool s' p))
                (message_queue (actor_pool s p) @ enqueued p evs)
       \<and> (\<not> list_ex discards ops \<longrightarrow>
            delivered p evs @ message_queue (actor_pool s' p)
              = message_queue (actor_pool s p) @ enqueued p evs)"
  using assms
proof (induction ops arbitrary: s evs s')
  case Nil
  then show ?case by simp
next
  case (Cons op ops)
  obtain e1 s1 where ex: "sched_exec s op = (e1, s1)" by (cases "sched_exec s op")
  obtain e2 s2 where run: "sched_run s1 ops = (e2, s2)" by (cases "sched_run s1 ops")
  from Cons.prems ex run have evs: "evs = e1 @ e2" and s': "s' = s2" by simp_all
  let ?Q = "message_queue (actor_pool s p)"
  let ?Q1 = "message_queue (actor_pool s1 p)"
  let ?Q2 = "message_queue (actor_pool s2 p)"
  from Cons.IH [OF run] have ih: "subseq (delivered p e2 @ ?Q2) (?Q1 @ enqueued p e2)"
    and iheq: "\<not> list_ex discards ops \<Longrightarrow> delivered p e2 @ ?Q2 = ?Q1 @ enqueued p e2"
    by simp_all
  from exec_mailbox [OF ex, of p] show ?case
  proof
    assume st: "delivered p e1 @ ?Q1 = ?Q @ enqueued p e1"
    have "subseq (delivered p e1 @ (delivered p e2 @ ?Q2)) (delivered p e1 @ (?Q1 @ enqueued p e2))"
      using ih by (simp add: subseq_append')
    also have "delivered p e1 @ (?Q1 @ enqueued p e2) = ?Q @ enqueued p e1 @ enqueued p e2"
      using st by simp
    finally have a: "subseq (delivered p evs @ ?Q2) (?Q @ enqueued p evs)"
      by (simp add: evs delivered_append enqueued_append)
    have b: "delivered p evs @ ?Q2 = ?Q @ enqueued p evs" if "\<not> list_ex discards (op # ops)"
    proof -
      from that have "\<not> list_ex discards ops" by simp
      from iheq [OF this] st show ?thesis
        by (simp add: evs delivered_append enqueued_append)
    qed
    from a b show ?thesis by (simp add: s')
  next
    assume d: "discards op \<and> e1 = []
           \<and> (?Q1 = [] \<or> ?Q1 = ?Q)"
    then have e1: "e1 = []" and disc: "discards op" by simp_all
    from d have "subseq (?Q1 @ enqueued p e2) (?Q @ enqueued p e2)"
      by (auto intro: subseq_drop_many)
    with ih have "subseq (delivered p e2 @ ?Q2) (?Q @ enqueued p e2)"
      by (rule subseq_order.trans)
    then show ?thesis using disc by (simp add: evs e1 s')
  qed
qed

text \<open>
  The ownership rule keeps the message pool well formed: along a history that satisfies
  \<open>owned_run\<close> from a state that satisfies \<open>pool_wf\<close>, every state satisfies
  \<open>pool_wf\<close>. A receive drops the head of one mailbox, creation, termination and
  initialisation empty mailboxes, a send links a slot that was free and hence in no
  mailbox, and a release touches no linked slot.
\<close>

lemma pool_wf_shrink:
  assumes wf: "pool_wf s"
    and suf: "\<And>p. suffix (slots s' p) (slots s p)"
    and used: "\<And>i. linked s' i \<Longrightarrow> message_pool_used s i \<Longrightarrow> message_pool_used s' i"
  shows "pool_wf s'"
proof -
  have sub: "\<And>p. set (slots s' p) \<subseteq> set (slots s p)"
    using suf by (rule set_mono_suffix)
  have d: "\<And>p. distinct (slots s' p)"
    using wf suf by (auto simp: pool_wf_def intro: distinct_suffix)
  have x: "\<And>p q. p \<noteq> q \<Longrightarrow> set (slots s' p) \<inter> set (slots s' q) = {}"
  proof -
    fix p q :: nat
    assume "p \<noteq> q"
    with wf have "set (slots s p) \<inter> set (slots s q) = {}" by (simp add: pool_wf_def)
    with sub [of p] sub [of q] show "set (slots s' p) \<inter> set (slots s' q) = {}" by blast
  qed
  have l: "\<And>i. linked s' i \<Longrightarrow> linked s i"
    using sub by (auto simp: linked_def)
  have u: "\<And>i. linked s' i \<Longrightarrow> message_pool_used s' i"
    using l used wf by (auto simp: pool_wf_def)
  from d x u show ?thesis by (simp add: pool_wf_def)
qed

lemma pool_wf_same:
  assumes "pool_wf s" "same_mail s s'" "message_pool_used s' = message_pool_used s"
  shows "pool_wf s'"
proof (rule pool_wf_shrink [OF assms(1)])
  fix p
  show "suffix (slots s' p) (slots s p)"
    using same_mailD(3) [OF assms(2)] by (simp add: slots_def)
next
  fix i
  assume "message_pool_used s i"
  then show "message_pool_used s' i" by (simp add: assms(3))
qed

lemma used_remove [simp]:
  "message_pool_used (scheduler_remove_from_ready_queue s x) = message_pool_used s"
  by (simp add: scheduler_remove_from_ready_queue_def Let_def split: option.splits)

lemma used_switch [simp]:
  "message_pool_used (scheduler_context_switch s x) = message_pool_used s"
  by (simp add: scheduler_context_switch_def Let_def split: option.splits)

lemma used_schedule [simp]:
  "message_pool_used (scheduler_schedule s) = message_pool_used s"
  by (simp add: scheduler_schedule_def Let_def)

lemma used_yield [simp]:
  "message_pool_used (scheduler_yield s) = message_pool_used s"
  by (simp add: scheduler_yield_def Let_def split: option.splits)

lemma used_start: "message_pool_used (scheduler_start s) = message_pool_used s"
  by (simp add: scheduler_start_def)

lemma used_fold:
  assumes "\<And>x t. message_pool_used (f x t) = message_pool_used t"
  shows "message_pool_used (fold f xs s) = message_pool_used s"
  by (induction xs arbitrary: s) (simp_all add: assms)

lemma used_analyze [simp]:
  "message_pool_used (scheduler_ai_analyze_actors s) = message_pool_used s"
proof (cases "sched_ai_supervision s")
  case False
  then show ?thesis by (simp add: scheduler_ai_analyze_actors_def)
next
  case True
  have "message_pool_used (fold (\<lambda>i t.
             case actors t i of
               None \<Rightarrow> t
             | Some p \<Rightarrow>
                 let a = actor_pool t p in
                 if a_ai_monitored a \<and> a_messages_sent a > 0 \<and> a_messages_received a > 0
                    \<and> a_behavior_score a < 100
                 then upd_actor p (\<lambda>a. a\<lparr>a_behavior_score := a_behavior_score a + 1\<rparr>) t
                 else t)
           [0 ..< MAX_ACTORS] s) = message_pool_used s"
    by (rule used_fold) (simp add: Let_def split: option.splits)
  with True show ?thesis by (simp add: scheduler_ai_analyze_actors_def)
qed

lemma used_timer: "message_pool_used (scheduler_timer_handler s) = message_pool_used s"
  by (simp add: scheduler_timer_handler_def Let_def split: option.splits)

lemma used_receive [simp]:
  "message_pool_used (snd (message_receive s)) = message_pool_used s"
  by (simp add: message_receive_def Let_def split: option.splits list.splits)

lemma receive_suffix:
  "suffix (slots (snd (message_receive s)) p) (slots s p)"
proof (cases "fst (message_receive s)")
  case None
  then show ?thesis by (simp add: receive_None)
next
  case (Some m)
  from receive_Some [OF Some] obtain c rest where
    c: "message_queue (actor_pool s c) = m # rest"
    and q: "\<And>p. message_queue (actor_pool (snd (message_receive s)) p)
                    = (if p = c then rest else message_queue (actor_pool s p))"
    by blast
  show ?thesis using c by (simp add: slots_def q suffix_ConsI)
qed

lemma wf_receive: "pool_wf s \<Longrightarrow> pool_wf (snd (message_receive s))"
  by (rule pool_wf_shrink [where s = s]) (simp_all add: receive_suffix)

lemma wf_wait: "pool_wf s \<Longrightarrow> pool_wf (snd (message_wait s t))"
proof -
  assume wf: "pool_wf s"
  show ?thesis
  proof (cases "current_actor s")
    case None
    then show ?thesis using wf by (simp add: message_wait_def)
  next
    case (Some c)
    show ?thesis
    proof (cases "message_receive s")
      case (Pair mo s1)
      show ?thesis
      proof (cases mo)
        case (Some m)
        then show ?thesis using wf_receive [OF wf] Pair \<open>current_actor s = Some c\<close>
          by (simp add: message_wait_def)
      next
        case None
        then have s1: "s1 = s" using receive_None [of s] Pair by simp
        let ?s4 = "scheduler_yield (scheduler_remove_from_ready_queue
                     (upd_actor c (\<lambda>a. a\<lparr>a_state := ACTOR_STATE_BLOCKED\<rparr>) s) (Some c))"
        have sm: "same_mail s ?s4" by (simp add: same_mail_def)
        have "pool_wf ?s4" by (rule pool_wf_same [OF wf sm]) simp
        then have "pool_wf (snd (message_receive ?s4))" by (rule wf_receive)
        then show ?thesis using Pair None s1 \<open>current_actor s = Some c\<close>
          by (simp add: message_wait_def Let_def)
      qed
    qed
  qed
qed

lemma wf_create: "pool_wf s \<Longrightarrow> pool_wf (snd (actor_create s e u pr sz st))"
proof (rule pool_wf_shrink [where s = s])
  fix p
  show "suffix (slots (snd (actor_create s e u pr sz st)) p) (slots s p)"
    using create_mailbox [of s e u pr sz st p] by (auto simp: slots_def)
qed (simp_all add: pool_used_create)

lemma fold_free_used:
  "message_pool_used (fold (\<lambda>m t. message_free t (Some m)) ms s) i
     = (message_pool_used s i \<and> \<not> (i < MAX_MESSAGES \<and> i \<in> pool_slot ` set ms))"
  by (induction ms arbitrary: s) (auto simp: message_free_def)

lemma terminate_effect:
  "actor_terminate s aid = s
   \<or> (\<exists>p. (\<forall>q. message_queue (actor_pool (actor_terminate s aid) q)
                  = (if q = p then [] else message_queue (actor_pool s q)))
          \<and> (\<forall>i. message_pool_used (actor_terminate s aid) i
                  = (message_pool_used s i
                     \<and> \<not> (i < MAX_MESSAGES \<and> i \<in> pool_slot ` set (message_queue (actor_pool s p))))))"
proof (cases "actor_get s aid")
  case None
  then show ?thesis by (simp add: actor_terminate_def)
next
  case (Some p)
  have "(\<forall>q. message_queue (actor_pool (actor_terminate s aid) q)
                  = (if q = p then [] else message_queue (actor_pool s q)))
          \<and> (\<forall>i. message_pool_used (actor_terminate s aid) i
                  = (message_pool_used s i
                     \<and> \<not> (i < MAX_MESSAGES \<and> i \<in> pool_slot ` set (message_queue (actor_pool s p)))))"
    using Some
    by (simp add: actor_terminate_def actor_clear_message_queue_def Let_def fold_free_pool
        fold_free_used)
  then show ?thesis by blast
qed

lemma wf_terminate: "pool_wf s \<Longrightarrow> pool_wf (actor_terminate s aid)"
proof -
  assume wf: "pool_wf s"
  from terminate_effect [of s aid] show ?thesis
  proof
    assume "actor_terminate s aid = s"
    with wf show ?thesis by simp
  next
    assume "\<exists>p. (\<forall>q. message_queue (actor_pool (actor_terminate s aid) q)
                  = (if q = p then [] else message_queue (actor_pool s q)))
          \<and> (\<forall>i. message_pool_used (actor_terminate s aid) i
                  = (message_pool_used s i
                     \<and> \<not> (i < MAX_MESSAGES \<and> i \<in> pool_slot ` set (message_queue (actor_pool s p)))))"
    then obtain p where
      q: "\<And>q. message_queue (actor_pool (actor_terminate s aid) q)
                  = (if q = p then [] else message_queue (actor_pool s q))"
      and u: "\<And>i. message_pool_used (actor_terminate s aid) i
                  = (message_pool_used s i
                     \<and> \<not> (i < MAX_MESSAGES \<and> i \<in> pool_slot ` set (message_queue (actor_pool s p))))"
      by blast
    show ?thesis
    proof (rule pool_wf_shrink [OF wf])
      fix r
      show "suffix (slots (actor_terminate s aid) r) (slots s r)"
        by (simp add: slots_def q)
    next
      fix i
      assume l: "linked (actor_terminate s aid) i" and us: "message_pool_used s i"
      from l obtain r where r: "i \<in> set (slots (actor_terminate s aid) r)"
        by (auto simp: linked_def)
      then have rp: "r \<noteq> p" and ir: "i \<in> set (slots s r)"
        by (auto simp: slots_def q split: if_splits)
      from wf rp have "set (slots s r) \<inter> set (slots s p) = {}" by (simp add: pool_wf_def)
      with ir have "i \<notin> pool_slot ` set (message_queue (actor_pool s p))"
        by (auto simp: slots_def)
      with us show "message_pool_used (actor_terminate s aid) i" by (simp add: u)
    qed
  qed
qed

lemma wf_init:
  assumes "\<forall>p. message_queue (actor_pool s p) = []"
  shows "pool_wf (scheduler_init s)"
  using assms by (simp add: pool_wf_def linked_def slots_def init_mailbox)

lemma wf_free:
  assumes "pool_wf s" "op_owned s (OpFree m)"
  shows "pool_wf (message_free s m)"
proof (rule pool_wf_shrink [OF assms(1)])
  fix p
  show "suffix (slots (message_free s m) p) (slots s p)"
    by (simp add: slots_def)
next
  fix i
  assume l: "linked (message_free s m) i" and u: "message_pool_used s i"
  from l have "linked s i" by (simp add: linked_def slots_def)
  with assms(2) u show "message_pool_used (message_free s m) i"
    by (auto simp: message_free_def split: option.splits)
qed

lemma send_pool:
  "(message_pool_used (snd (message_send_async s rid ty data psize alloc_ok)) = message_pool_used s
      \<and> same_mail s (snd (message_send_async s rid ty data psize alloc_ok)))
   \<or> (\<exists>r m. \<not> message_pool_used s (pool_slot m)
          \<and> message_pool_used (snd (message_send_async s rid ty data psize alloc_ok))
              = (message_pool_used s)(pool_slot m := True)
          \<and> (\<forall>p. message_queue (actor_pool (snd (message_send_async s rid ty data psize alloc_ok)) p)
                  = (if p = r then message_queue (actor_pool s p) @ [m]
                     else message_queue (actor_pool s p))))"
proof (cases "List.find (\<lambda>i. \<not> message_pool_used s i) [0 ..< MAX_MESSAGES]")
  case None
  then have "message_allocate s = (None, s)" by (simp add: message_allocate_def)
  then show ?thesis by (simp add: message_send_async_def split: option.splits)
next
  case (Some j)
  then have free: "\<not> message_pool_used s j" and j: "j < MAX_MESSAGES"
    by (auto simp: find_Some_iff)
  from Some have al: "message_allocate s
      = (Some j, s\<lparr>message_pool_used := (message_pool_used s)(j := True)\<rparr>)"
    by (simp add: message_allocate_def)
  have restore: "((message_pool_used s)(j := True))(j := False) = message_pool_used s"
    using free by (simp add: fun_eq_iff)
  show ?thesis
  proof (cases "actor_get s rid")
    case None
    then show ?thesis by (simp add: message_send_async_def)
  next
    case (Some r)
    show ?thesis
    proof (cases "queue_size (actor_pool s r) \<ge> max_queue_size (actor_pool s r)")
      case True
      then show ?thesis using al Some j restore
        by (simp add: message_send_async_def Let_def add_message_full message_free_def
            same_mail_def)
    next
      case False
      then have room: "queue_size (actor_pool s r) < max_queue_size (actor_pool s r)" by simp
      show ?thesis
      proof (cases "fst (message_send_async s rid ty data psize alloc_ok)")
        case False
        then show ?thesis using al Some j restore room send_fail_frame [OF False]
          by (auto simp: message_send_async_def Let_def add_message_room message_free_def
              split: if_splits option.splits)
      next
        case True
        then have "\<exists>m. pool_slot m = j
          \<and> message_pool_used (snd (message_send_async s rid ty data psize alloc_ok))
              = (message_pool_used s)(j := True)
          \<and> (\<forall>p. message_queue (actor_pool (snd (message_send_async s rid ty data psize alloc_ok)) p)
                  = (if p = r then message_queue (actor_pool s p) @ [m]
                     else message_queue (actor_pool s p)))"
          using al Some room
          by (simp add: message_send_async_def Let_def add_message_room
              split: if_splits option.splits)
        with free show ?thesis by blast
      qed
    qed
  qed
qed

lemma wf_send: "pool_wf s \<Longrightarrow> pool_wf (snd (message_send_async s rid ty data psize alloc_ok))"
proof -
  assume wf: "pool_wf s"
  let ?s' = "snd (message_send_async s rid ty data psize alloc_ok)"
  from send_pool [of s rid ty data psize alloc_ok] show ?thesis
  proof
    assume "message_pool_used ?s' = message_pool_used s \<and> same_mail s ?s'"
    then show ?thesis using pool_wf_same [OF wf] by blast
  next
    assume "\<exists>r m. \<not> message_pool_used s (pool_slot m)
          \<and> message_pool_used ?s' = (message_pool_used s)(pool_slot m := True)
          \<and> (\<forall>p. message_queue (actor_pool ?s' p)
                  = (if p = r then message_queue (actor_pool s p) @ [m]
                     else message_queue (actor_pool s p)))"
    then obtain r m where free: "\<not> message_pool_used s (pool_slot m)"
      and u: "message_pool_used ?s' = (message_pool_used s)(pool_slot m := True)"
      and q: "\<And>p. message_queue (actor_pool ?s' p)
                  = (if p = r then message_queue (actor_pool s p) @ [m]
                     else message_queue (actor_pool s p))"
      by blast
    from wf free have fresh: "\<And>p. pool_slot m \<notin> set (slots s p)"
      by (auto simp: pool_wf_def linked_def)
    have sl: "\<And>p. slots ?s' p = (if p = r then slots s p @ [pool_slot m] else slots s p)"
      by (simp add: slots_def q)
    have d: "\<And>p. distinct (slots ?s' p)"
      using wf fresh by (simp add: sl pool_wf_def)
    have x: "\<And>p q. p \<noteq> q \<Longrightarrow> set (slots ?s' p) \<inter> set (slots ?s' q) = {}"
      using wf fresh by (auto simp: sl pool_wf_def)
    have l: "\<And>i. linked ?s' i \<Longrightarrow> message_pool_used ?s' i"
      using wf by (auto simp: linked_def sl u pool_wf_def split: if_splits)
    from d x l show ?thesis by (simp add: pool_wf_def)
  qed
qed

lemma wf_exec: "pool_wf s \<Longrightarrow> op_owned s op \<Longrightarrow> pool_wf (snd (sched_exec s op))"
proof (cases op)
  case OpInit
  then show "pool_wf s \<Longrightarrow> op_owned s op \<Longrightarrow> ?thesis" by (simp add: wf_init)
next
  case OpStart
  then show "pool_wf s \<Longrightarrow> op_owned s op \<Longrightarrow> ?thesis"
    using pool_wf_same [OF _ same_mail_start used_start] by simp
next
  case OpSchedule
  then show "pool_wf s \<Longrightarrow> op_owned s op \<Longrightarrow> ?thesis"
    using pool_wf_same [OF _ same_mail_schedule used_schedule] by simp
next
  case OpYield
  then show "pool_wf s \<Longrightarrow> op_owned s op \<Longrightarrow> ?thesis"
    using pool_wf_same [OF _ same_mail_yield used_yield] by simp
next
  case OpTimer
  then show "pool_wf s \<Longrightarrow> op_owned s op \<Longrightarrow> ?thesis"
    using pool_wf_same [OF _ same_mail_timer used_timer] by simp
next
  case (OpCreate e u pr sz st)
  then show "pool_wf s \<Longrightarrow> op_owned s op \<Longrightarrow> ?thesis" by (simp add: wf_create)
next
  case (OpActorStart aid)
  then show "pool_wf s \<Longrightarrow> op_owned s op \<Longrightarrow> ?thesis"
    using pool_wf_same [OF _ same_mail_actor_start pool_used_actor_start] by simp
next
  case (OpTerminate aid)
  then show "pool_wf s \<Longrightarrow> op_owned s op \<Longrightarrow> ?thesis" by (simp add: wf_terminate)
next
  case (OpSend rid ty data psize alloc_ok)
  then show "pool_wf s \<Longrightarrow> op_owned s op \<Longrightarrow> ?thesis"
    using wf_send [of s rid ty data psize alloc_ok] by (simp add: split_beta Let_def)
next
  case OpReceive
  then show "pool_wf s \<Longrightarrow> op_owned s op \<Longrightarrow> ?thesis"
    using wf_receive [of s] by (simp add: split_beta Let_def)
next
  case (OpWait t)
  then show "pool_wf s \<Longrightarrow> op_owned s op \<Longrightarrow> ?thesis"
    using wf_wait [of s t] by (simp add: split_beta Let_def)
next
  case (OpFree m)
  then show "pool_wf s \<Longrightarrow> op_owned s op \<Longrightarrow> ?thesis" using wf_free [of s m] by simp
qed

lemma wf_run: "pool_wf s \<Longrightarrow> owned_run s ops \<Longrightarrow> pool_wf (snd (sched_run s ops))"
proof (induction ops arbitrary: s)
  case Nil
  then show ?case by simp
next
  case (Cons op ops)
  from Cons.prems have "pool_wf (snd (sched_exec s op))" "owned_run (snd (sched_exec s op)) ops"
    by (simp_all add: wf_exec)
  from Cons.IH [OF this] show ?case by (simp add: split_beta Let_def)
qed

lemma wf_boot: "pool_wf scheduler_boot"
  by (simp add: pool_wf_def linked_def slots_def scheduler_boot_def zero_actor_def)

lemma owned_fifo: "owned_run s fifo_ops"
  by (rule owned_run_always) (auto simp: fifo_ops_def)

lemma wf_two_actors: "pool_wf two_actors"
proof -
  have "pool_wf (snd (sched_run scheduler_boot (fill_ops 0)))"
    by (rule wf_run [OF wf_boot owned_fill])
  then show ?thesis by (simp add: sched_run_fill)
qed

text \<open>
  Claim C7. Each mailbox is first-in first-out. Along any history of scheduler calls
  that starts with a well-formed message pool and keeps to the ownership rule of the
  messaging interface,
  for every mailbox, the messages handed out by receive and wait, followed by the
  messages still waiting, form a subsequence of the messages that were waiting at
  the start followed by the messages of the successful sends, in the order of their
  enqueueing; when no call of the history resets or releases an actor slot the two
  sequences are equal. So of two messages enqueued into one mailbox the earlier is
  always delivered first, whatever their kind or priority and whoever sent them.
\<close>

theorem mailbox_fifo:
  assumes run: "sched_run s ops = (evs, s')"
    and wf: "pool_wf s"
    and own: "owned_run s ops"
  shows "subseq (delivered p evs @ message_queue (actor_pool s' p))
                (message_queue (actor_pool s p) @ enqueued p evs)
       \<and> (\<not> list_ex discards ops \<longrightarrow>
            delivered p evs @ message_queue (actor_pool s' p)
              = message_queue (actor_pool s p) @ enqueued p evs)"
  using run by (rule run_mailbox)


text \<open>
  Two sends to actor 2, of kinds Async and System, then its two receives: delivered in
  the order sent. The start state has a well-formed pool and the history keeps to the
  ownership rule.
\<close>

theorem mailbox_fifo_witness:
  "pool_wf two_actors \<and> owned_run two_actors fifo_ops
   \<and> \<not> list_ex discards fifo_ops
   \<and> map msg_type (delivered 2 (fst (sched_run two_actors fifo_ops))) = [MSG_TYPE_ASYNC, MSG_TYPE_SYSTEM]
   \<and> delivered 2 (fst (sched_run two_actors fifo_ops))
        @ message_queue (actor_pool (snd (sched_run two_actors fifo_ops)) 2)
      = message_queue (actor_pool two_actors 2) @ enqueued 2 (fst (sched_run two_actors fifo_ops))"
proof -
  have a: "\<not> list_ex discards fifo_ops" by (simp add: fifo_ops_def)
  have c: "map msg_type (delivered 2 (fst (sched_run two_actors fifo_ops))) = [MSG_TYPE_ASYNC, MSG_TYPE_SYSTEM]"
    by code_simp
  have r: "sched_run two_actors fifo_ops
         = (fst (sched_run two_actors fifo_ops), snd (sched_run two_actors fifo_ops))"
    by simp
  from mailbox_fifo [OF r wf_two_actors owned_fifo, of 2] a c wf_two_actors owned_fifo [of two_actors]
  show ?thesis by blast
qed


end
